theory Spec2Isabelle
  imports Complex_Main "HOL-Library.Word" "HOL-Library.AList"
begin

section \<open>JavaScript values as the server sees them\<close>

text \<open>
  The Express server of the repository keeps three plain objects \<^verbatim>\<open>users\<close>,
  \<^verbatim>\<open>buckets\<close> and \<^verbatim>\<open>databases\<close> in memory and reads its inputs from JSON request bodies
  and URL parameters.  A JavaScript string is a sequence of 16-bit code units; \<open>js\<close>
  turns an ASCII literal into one.
\<close>

type_synonym jsstring = "16 word list"

definition js :: "string \<Rightarrow> jsstring" where
  "js s = map (\<lambda>c. of_nat (of_char c)) s"

text \<open>
  A value parsed by \<^verbatim>\<open>express.json()\<close>.  A number is a whole number from \<open>-2^53\<close> to
  \<open>2^53 - 1\<close>, read as a signed 54-bit word: these a double holds exactly and JavaScript
  prints them in plain decimal (other numbers are outside this model).  An object is the
  list of its own properties in creation order.  A field that may be missing from a body
  is a \<open>json option\<close>, \<open>None\<close> being \<^verbatim>\<open>undefined\<close>.
\<close>

datatype json =
    JNull
  | JBool bool
  | JNum "54 word"
  | JStr jsstring
  | JArr "json list"
  | JObj "(jsstring \<times> json) list"

text \<open>\<^verbatim>\<open>!v\<close> is false exactly for the truthy values.\<close>

fun truthy :: "json option \<Rightarrow> bool" where
  "truthy None = False"
| "truthy (Some JNull) = False"
| "truthy (Some (JBool b)) = b"
| "truthy (Some (JNum n)) = (n \<noteq> 0)"
| "truthy (Some (JStr s)) = (s \<noteq> [])"
| "truthy (Some (JArr xs)) = True"
| "truthy (Some (JObj ps)) = True"

text \<open>\<^verbatim>\<open>v || d\<close> for a default \<open>d\<close>.\<close>

definition or_default :: "json option \<Rightarrow> json \<Rightarrow> json" where
  "or_default v d = (case v of None \<Rightarrow> d | Some x \<Rightarrow> if truthy (Some x) then x else d)"

text \<open>
  \<^verbatim>\<open>a === b\<close> for two values that come from different request bodies: primitives are
  compared by value, two arrays or objects are never the same object.
\<close>

fun strict_equal :: "json option \<Rightarrow> json option \<Rightarrow> bool" where
  "strict_equal None None = True"
| "strict_equal (Some JNull) (Some JNull) = True"
| "strict_equal (Some (JBool a)) (Some (JBool b)) = (a = b)"
| "strict_equal (Some (JNum a)) (Some (JNum b)) = (a = b)"
| "strict_equal (Some (JStr a)) (Some (JStr b)) = (a = b)"
| "strict_equal _ _ = False"

subsection \<open>Numbers and strings\<close>

fun dec_digits :: "nat \<Rightarrow> jsstring" where
  "dec_digits n =
     (if n < 10 then [of_nat (48 + n)] else dec_digits (n div 10) @ [of_nat (48 + n mod 10)])"

declare dec_digits.simps [simp del]

text \<open>\<^verbatim>\<open>Number::toString\<close> on the numbers of the model: the decimal digits, after the sign.\<close>

definition number_to_string :: "54 word \<Rightarrow> jsstring" where
  "number_to_string n =
     (if sint n < 0 then 0x2D # dec_digits (nat (- sint n)) else dec_digits (nat (sint n)))"

definition hex_digit :: "nat \<Rightarrow> 16 word" where
  "hex_digit d = (if d < 10 then of_nat (48 + d) else of_nat (87 + d))"

text \<open>
  \<^verbatim>\<open>ToString\<close>, as a property access \<^verbatim>\<open>obj[v]\<close> applies it to its key.  \<open>None\<close> is a thrown
  \<^verbatim>\<open>TypeError\<close>: an object parsed from JSON whose own \<^verbatim>\<open>toString\<close> property hides
  \<^verbatim>\<open>Object.prototype.toString\<close> has no primitive value.  An array is joined with commas,
  \<^verbatim>\<open>null\<close> elements giving the empty string.
\<close>

fun to_string :: "json \<Rightarrow> jsstring option"
  and join_elements :: "json list \<Rightarrow> jsstring option" where
  "to_string JNull = Some (js ''null'')"
| "to_string (JBool b) = Some (js (if b then ''true'' else ''false''))"
| "to_string (JNum n) = Some (number_to_string n)"
| "to_string (JStr s) = Some s"
| "to_string (JArr xs) = join_elements xs"
| "to_string (JObj ps) =
     (if js ''toString'' \<in> fst ` set ps then None else Some (js ''[object Object]''))"
| "join_elements [] = Some []"
| "join_elements (x # xs) =
     (case (if x = JNull then Some [] else to_string x) of
        None \<Rightarrow> None
      | Some a \<Rightarrow>
          (if xs = [] then Some a
           else (case join_elements xs of None \<Rightarrow> None | Some b \<Rightarrow> Some (a @ 0x2C # b))))"

definition to_property_key :: "json option \<Rightarrow> jsstring option" where
  "to_property_key v = (case v of None \<Rightarrow> Some (js ''undefined'') | Some x \<Rightarrow> to_string x)"

subsection \<open>Plain objects used as dictionaries\<close>

text \<open>
  The own properties of a plain object, in creation order.  Assigning to an existing key
  keeps its place, assigning to a new key appends it (\<open>AList.update\<close>), \<^verbatim>\<open>delete\<close> removes
  the key (\<open>AList.delete\<close>).
\<close>

type_synonym 'v props = "(jsstring \<times> 'v) list"

text \<open>
  \<^verbatim>\<open>Object.keys\<close>, \<^verbatim>\<open>Object.values\<close> and \<^verbatim>\<open>Object.entries\<close> list the array indices first,
  in ascending numeric order, then the other keys in creation order.  An array index is
  the canonical decimal form of an integer below \<open>2^32 - 1\<close>.
\<close>

definition is_digit :: "16 word \<Rightarrow> bool" where
  "is_digit c = (0x30 \<le> c \<and> c \<le> 0x39)"

definition dec_value :: "jsstring \<Rightarrow> nat" where
  "dec_value k = foldl (\<lambda>a c. 10 * a + (unat c - 48)) 0 k"

definition is_array_index :: "jsstring \<Rightarrow> bool" where
  "is_array_index k =
     (k \<noteq> [] \<and> list_all is_digit k \<and> (length k = 1 \<or> hd k \<noteq> 0x30) \<and> dec_value k < 2 ^ 32 - 1)"

definition js_order :: "'v props \<Rightarrow> 'v props" where
  "js_order ps =
     sort_key (\<lambda>p. dec_value (fst p)) (filter (\<lambda>p. is_array_index (fst p)) ps)
     @ filter (\<lambda>p. \<not> is_array_index (fst p)) ps"

text \<open>
  The properties every plain object inherits from \<^verbatim>\<open>Object.prototype\<close>.  Each of them is
  a function, except \<^verbatim>\<open>__proto__\<close>, which reads as the prototype itself: all are truthy.
\<close>

definition object_prototype_keys :: "jsstring list" where
  "object_prototype_keys = map js
     [''constructor'', ''__defineGetter__'', ''__defineSetter__'', ''hasOwnProperty'',
      ''__lookupGetter__'', ''__lookupSetter__'', ''isPrototypeOf'', ''propertyIsEnumerable'',
      ''toString'', ''valueOf'', ''__proto__'', ''toLocaleString'']"

text \<open>What \<^verbatim>\<open>obj[k]\<close> reads from a plain object whose own values have type \<open>'v\<close>.\<close>

datatype 'v lookup = Undefined | Builtin | Own 'v

definition obj_get :: "'v props \<Rightarrow> jsstring \<Rightarrow> 'v lookup" where
  "obj_get ps k =
     (case map_of ps k of
        Some v \<Rightarrow> Own v
      | None \<Rightarrow> if k \<in> set object_prototype_keys then Builtin else Undefined)"

subsection \<open>\<^verbatim>\<open>JSON.stringify\<close>\<close>

definition is_lead :: "16 word \<Rightarrow> bool" where
  "is_lead c = (0xD800 \<le> c \<and> c \<le> 0xDBFF)"

definition is_trail :: "16 word \<Rightarrow> bool" where
  "is_trail c = (0xDC00 \<le> c \<and> c \<le> 0xDFFF)"

definition unicode_escape :: "16 word \<Rightarrow> jsstring" where
  "unicode_escape c =
     [0x5C, 0x75, hex_digit (unat c div 4096), hex_digit (unat c div 256 mod 16),
      hex_digit (unat c div 16 mod 16), hex_digit (unat c mod 16)]"

definition quote_code_unit :: "16 word \<Rightarrow> jsstring" where
  "quote_code_unit c =
     (if c = 0x08 then [0x5C, 0x62]
      else if c = 0x09 then [0x5C, 0x74]
      else if c = 0x0A then [0x5C, 0x6E]
      else if c = 0x0C then [0x5C, 0x66]
      else if c = 0x0D then [0x5C, 0x72]
      else if c = 0x22 then [0x5C, 0x22]
      else if c = 0x5C then [0x5C, 0x5C]
      else if c < 0x20 then unicode_escape c
      else [c])"

text \<open>
  \<^verbatim>\<open>QuoteJSONString\<close> without the enclosing quotes: a surrogate pair is copied, a lone
  surrogate is escaped.
\<close>

fun quote_units :: "jsstring \<Rightarrow> jsstring" where
  "quote_units [] = []"
| "quote_units [c] =
     (if is_lead c \<or> is_trail c then unicode_escape c else quote_code_unit c)"
| "quote_units (c # d # ds) =
     (if is_lead c then
        (if is_trail d then c # d # quote_units ds else unicode_escape c @ quote_units (d # ds))
      else if is_trail c then unicode_escape c @ quote_units (d # ds)
      else quote_code_unit c @ quote_units (d # ds))"

definition quote_json_string :: "jsstring \<Rightarrow> jsstring" where
  "quote_json_string s = 0x22 # quote_units s @ [0x22]"

fun join_with :: "'a \<Rightarrow> 'a list list \<Rightarrow> 'a list" where
  "join_with sep [] = []"
| "join_with sep [x] = x"
| "join_with sep (x # y # ys) = x @ sep # join_with sep (y # ys)"

function (sequential) JSON_stringify :: "json \<Rightarrow> jsstring" where
  "JSON_stringify JNull = js ''null''"
| "JSON_stringify (JBool b) = js (if b then ''true'' else ''false'')"
| "JSON_stringify (JNum n) = number_to_string n"
| "JSON_stringify (JStr s) = quote_json_string s"
| "JSON_stringify (JArr xs) = 0x5B # join_with 0x2C (map JSON_stringify xs) @ [0x5D]"
| "JSON_stringify (JObj ps) =
     0x7B # join_with 0x2C
       (map (\<lambda>p. quote_json_string (fst p) @ 0x3A # JSON_stringify (snd p)) (js_order ps))
     @ [0x7D]"
  by pat_completeness auto
termination
proof (relation "measure size")
  show "wf (measure size)" by simp
next
  fix xs :: "json list" and x
  assume "x \<in> set xs"
  then have "size x \<le> size_list size xs" by (simp add: size_list_estimation')
  then show "(x, JArr xs) \<in> measure size" by simp
next
  fix ps :: "(jsstring \<times> json) list" and p
  assume "p \<in> set (js_order ps)"
  then have "p \<in> set ps" by (auto simp: js_order_def)
  then have "size (snd p) < Suc (size_list (size_prod (\<lambda>x. 0) size) ps)"
    by (induction ps) (auto simp: less_Suc_eq_le)
  then show "(snd p, JObj ps) \<in> measure size" by simp
qed

text \<open>
  The number of bytes of a string in UTF-8: one to three bytes for a code unit outside
  the surrogate range, four for a surrogate pair, three (the replacement character) for a
  lone surrogate.
\<close>

fun utf8_length :: "jsstring \<Rightarrow> nat" where
  "utf8_length [] = 0"
| "utf8_length [c] = (if c < 0x80 then 1 else if c < 0x800 then 2 else 3)"
| "utf8_length (c # d # ds) =
     (if c < 0x80 then 1 + utf8_length (d # ds)
      else if c < 0x800 then 2 + utf8_length (d # ds)
      else if is_lead c \<and> is_trail d then 4 + utf8_length ds
      else 3 + utf8_length (d # ds))"

section \<open>The stores\<close>

subsection \<open>Identifiers and clock\<close>

text \<open>
  \<^verbatim>\<open>uuidv4()\<close> returns 32 lower-case hexadecimal digits in five groups joined by hyphens.
  The identifier drawn by a handler is a parameter of its model.
\<close>

datatype uuid = Uuid "32 word" "16 word" "16 word" "16 word" "48 word"

fun hexs :: "nat \<Rightarrow> nat \<Rightarrow> jsstring" where
  "hexs 0 v = []"
| "hexs (Suc n) v = hexs n (v div 16) @ [hex_digit (v mod 16)]"

fun uuid_str :: "uuid \<Rightarrow> jsstring" where
  "uuid_str (Uuid a b c d e) =
     hexs 8 (unat a) @ 0x2D # hexs 4 (unat b) @ 0x2D # hexs 4 (unat c) @ 0x2D
     # hexs 4 (unat d) @ 0x2D # hexs 12 (unat e)"

text \<open>
  A \<^verbatim>\<open>Date\<close> is its number of milliseconds.  A handler's clock gives the value of its
  \<open>k\<close>-th \<^verbatim>\<open>new Date()\<close>, counted from 0.
\<close>

type_synonym time = nat

type_synonym clock = "nat \<Rightarrow> time"

subsection \<open>Records\<close>

record user =
  userId :: jsstring
  email :: json
  password :: json
  user_name :: json
  user_createdAt :: time

record bucket =
  bucketId :: jsstring
  name :: json
  owner :: jsstring
  durability :: json
  region :: json
  bucket_createdAt :: time
  itemCount :: nat

text \<open>The object stored at a path; \<open>item_size\<close> is its \<^verbatim>\<open>size\<close> field.\<close>

record item =
  data :: json
  createdAt :: time
  updatedAt :: time
  item_size :: nat

text \<open>
  \<^verbatim>\<open>databases[bucketId]\<close>: the own properties, and the item that an assignment to the path
  \<^verbatim>\<open>__proto__\<close> has installed as the object's prototype (that assignment runs the
  inherited setter and creates no own property).
\<close>

record db =
  own :: "item props"
  proto :: "item option"

definition empty_db :: db where
  "empty_db = \<lparr>own = [], proto = None\<rparr>"

text \<open>
  \<^verbatim>\<open>buckets\<close> and \<^verbatim>\<open>databases\<close> are keyed by the identifiers \<^verbatim>\<open>uuidv4()\<close> returned, the
  property key being \<open>uuid_str\<close> of the identifier.
\<close>

record state =
  users :: "user props"
  buckets :: "(uuid \<times> bucket) list"
  databases :: "(uuid \<times> db) list"

definition init :: state where
  "init = \<lparr>users = [], buckets = [], databases = []\<rparr>"

subsection \<open>Reading and writing a bucket's paths\<close>

text \<open>What \<^verbatim>\<open>databases[bucketId][path]\<close> can read.\<close>

datatype slot =
    NoValue
  | Item item
  | Payload json
  | Stamp time
  | Count nat
  | BuiltinValue

definition db_get :: "db \<Rightarrow> jsstring \<Rightarrow> slot" where
  "db_get d k =
     (case map_of (own d) k of
        Some it \<Rightarrow> Item it
      | None \<Rightarrow>
          (case proto d of
             Some it \<Rightarrow>
               if k = js ''__proto__'' then Item it
               else if k = js ''data'' then Payload (data it)
               else if k = js ''createdAt'' then Stamp (createdAt it)
               else if k = js ''updatedAt'' then Stamp (updatedAt it)
               else if k = js ''size'' then Count (item_size it)
               else if k \<in> set object_prototype_keys then BuiltinValue
               else NoValue
           | None \<Rightarrow> if k \<in> set object_prototype_keys then BuiltinValue else NoValue))"

fun slot_truthy :: "slot \<Rightarrow> bool" where
  "slot_truthy NoValue = False"
| "slot_truthy (Item it) = True"
| "slot_truthy (Payload x) = truthy (Some x)"
| "slot_truthy (Stamp t) = True"
| "slot_truthy (Count n) = (n \<noteq> 0)"
| "slot_truthy BuiltinValue = True"

definition db_set :: "db \<Rightarrow> jsstring \<Rightarrow> item \<Rightarrow> db" where
  "db_set d k it =
     (if k = js ''__proto__'' then d\<lparr>proto := Some it\<rparr>
      else d\<lparr>own := AList.update k it (own d)\<rparr>)"

definition db_delete :: "db \<Rightarrow> jsstring \<Rightarrow> db" where
  "db_delete d k = d\<lparr>own := AList.delete k (own d)\<rparr>"

definition db_entries :: "db \<Rightarrow> item props" where
  "db_entries d = js_order (own d)"

definition db_keys :: "db \<Rightarrow> jsstring list" where
  "db_keys d = map fst (js_order (own d))"

text \<open>
  \<^verbatim>\<open>v.k\<close> for a parsed value \<open>v\<close> and a key that no prototype defines (\<^verbatim>\<open>path\<close>, \<^verbatim>\<open>data\<close>,
  \<^verbatim>\<open>createdAt\<close>, \<^verbatim>\<open>updatedAt\<close>, \<^verbatim>\<open>size\<close>): an own property of an object, or \<^verbatim>\<open>undefined\<close>.
\<close>

fun json_field :: "json \<Rightarrow> jsstring \<Rightarrow> json option" where
  "json_field (JObj ps) k = map_of ps k"
| "json_field _ k = None"

text \<open>The fields that the read handler copies from what it found into its response.\<close>

datatype jsval = Undef | Json json | Date time | Number nat

definition of_field :: "json option \<Rightarrow> jsval" where
  "of_field v = (case v of None \<Rightarrow> Undef | Some x \<Rightarrow> Json x)"

fun slot_data :: "slot \<Rightarrow> jsval" where
  "slot_data (Item it) = Json (data it)"
| "slot_data (Payload x) = of_field (json_field x (js ''data''))"
| "slot_data _ = Undef"

fun slot_createdAt :: "slot \<Rightarrow> jsval" where
  "slot_createdAt (Item it) = Date (createdAt it)"
| "slot_createdAt (Payload x) = of_field (json_field x (js ''createdAt''))"
| "slot_createdAt _ = Undef"

fun slot_updatedAt :: "slot \<Rightarrow> jsval" where
  "slot_updatedAt (Item it) = Date (updatedAt it)"
| "slot_updatedAt (Payload x) = of_field (json_field x (js ''updatedAt''))"
| "slot_updatedAt _ = Undef"

fun slot_size :: "slot \<Rightarrow> jsval" where
  "slot_size (Item it) = Number (item_size it)"
| "slot_size (Payload x) = of_field (json_field x (js ''size''))"
| "slot_size _ = Undef"

section \<open>The request handlers\<close>

text \<open>
  A handler takes the store and returns its response with the store it leaves.  An error
  response carries its HTTP status: 400, 401, 403, 404, 409, and 500 for an exception
  thrown inside a handler, which Express answers itself.  \<open>BodyRejected\<close> is the 400 with
  which \<^verbatim>\<open>express.json()\<close> answers a body that it refuses.  The two routes that only read
  (\<^verbatim>\<open>/api/stats\<close> and \<^verbatim>\<open>/api/health\<close>) are left out.
\<close>

datatype error =
    BadRequest string
  | Unauthorized string
  | Forbidden string
  | NotFound string
  | Conflict string
  | BodyRejected
  | InternalError

text \<open>
  The bearer token of a request, as \<^verbatim>\<open>authenticateToken\<close> sees it: missing, rejected by
  \<^verbatim>\<open>jwt.verify\<close>, or verified with the \<^verbatim>\<open>userId\<close> it carries.
\<close>

datatype credential = NoToken | InvalidToken | ValidToken jsstring

record listing =
  entry_path :: jsstring
  entry_size :: nat
  entry_createdAt :: time
  entry_updatedAt :: time

record hit =
  hit_path :: jsstring
  hit_data :: json
  score :: real

datatype response =
    Registered jsstring json credential
  | LoggedIn jsstring json credential
  | BucketCreated jsstring json
  | BucketList "bucket list"
  | Stored jsstring jsstring time
  | Found jsstring jsval jsval jsval jsval
  | Deleted
  | Items jsstring nat "listing list"
  | SearchResults "json option" "hit list"
  | BatchResults "(json option \<times> string) list" nat

type_synonym result = "(error + response) \<times> state"

definition authenticateToken :: "credential \<Rightarrow> (jsstring \<Rightarrow> state \<Rightarrow> result) \<Rightarrow> state \<Rightarrow> result" where
  "authenticateToken c handler s =
     (case c of
        NoToken \<Rightarrow> (Inl (Unauthorized ''No token provided''), s)
      | InvalidToken \<Rightarrow> (Inl (Forbidden ''Invalid token''), s)
      | ValidToken uid \<Rightarrow> handler uid s)"

subsection \<open>Accounts\<close>

text \<open>\<^verbatim>\<open>POST /api/auth/register\<close>; \<open>uid\<close> is the identifier \<^verbatim>\<open>uuidv4()\<close> returns.\<close>

definition register :: "json option \<Rightarrow> json option \<Rightarrow> json option \<Rightarrow> uuid \<Rightarrow> clock \<Rightarrow> state \<Rightarrow> result" where
  "register email' password' name' uid clk s =
     (if \<not> truthy email' \<or> \<not> truthy password' then
        (Inl (BadRequest ''Email and password required''), s)
      else
        (case (email', password', to_property_key email') of
           (Some e, Some p, Some k) \<Rightarrow>
             (case obj_get (users s) k of
                Undefined \<Rightarrow>
                  (Inr (Registered (uuid_str uid) e (ValidToken (uuid_str uid))),
                   s\<lparr>users := AList.update k
                      \<lparr>userId = uuid_str uid, email = e, password = p,
                       user_name = or_default name' (JStr (js ''User'')),
                       user_createdAt = clk 0\<rparr> (users s)\<rparr>)
              | _ \<Rightarrow> (Inl (Conflict ''User already exists''), s))
         | _ \<Rightarrow> (Inl InternalError, s)))"

text \<open>
  \<^verbatim>\<open>POST /api/auth/login\<close>.  An inherited property found under the key has no
  \<^verbatim>\<open>password\<close>, which differs from every supplied one.
\<close>

definition login :: "json option \<Rightarrow> json option \<Rightarrow> state \<Rightarrow> result" where
  "login email' password' s =
     (if \<not> truthy email' \<or> \<not> truthy password' then
        (Inl (BadRequest ''Email and password required''), s)
      else
        (case (email', to_property_key email') of
           (Some e, Some k) \<Rightarrow>
             (case obj_get (users s) k of
                Undefined \<Rightarrow> (Inl (Unauthorized ''Invalid credentials''), s)
              | Builtin \<Rightarrow> (Inl (Unauthorized ''Invalid credentials''), s)
              | Own u \<Rightarrow>
                  if \<not> strict_equal (Some (password u)) password' then
                    (Inl (Unauthorized ''Invalid credentials''), s)
                  else (Inr (LoggedIn (userId u) e (ValidToken (userId u))), s))
         | _ \<Rightarrow> (Inl InternalError, s)))"

subsection \<open>Buckets\<close>

text \<open>\<^verbatim>\<open>POST /api/buckets\<close>; \<open>bid\<close> is the identifier \<^verbatim>\<open>uuidv4()\<close> returns.\<close>

definition createBucket ::
  "credential \<Rightarrow> json option \<Rightarrow> json option \<Rightarrow> json option \<Rightarrow> uuid \<Rightarrow> clock \<Rightarrow> state \<Rightarrow> result" where
  "createBucket c name' durability' region' bid clk =
     authenticateToken c (\<lambda>uid s.
       case name' of
         None \<Rightarrow> (Inl (BadRequest ''Bucket name required''), s)
       | Some n \<Rightarrow>
           if \<not> truthy (Some n) then (Inl (BadRequest ''Bucket name required''), s)
           else
             (Inr (BucketCreated (uuid_str bid) n),
              s\<lparr>buckets := AList.update bid
                   \<lparr>bucketId = uuid_str bid, name = n, owner = uid,
                    durability = or_default durability' (JStr (js ''standard'')),
                    region = or_default region' (JStr (js ''us-east-1'')),
                    bucket_createdAt = clk 0, itemCount = 0\<rparr> (buckets s),
                databases := AList.update bid empty_db (databases s)\<rparr>))"

text \<open>\<^verbatim>\<open>Object.values(buckets)\<close>.\<close>

definition bucket_values :: "state \<Rightarrow> bucket list" where
  "bucket_values s = map snd (js_order (map (\<lambda>p. (uuid_str (fst p), snd p)) (buckets s)))"

text \<open>\<^verbatim>\<open>GET /api/buckets\<close>.\<close>

definition listBuckets :: "credential \<Rightarrow> state \<Rightarrow> result" where
  "listBuckets c =
     authenticateToken c (\<lambda>uid s.
       (Inr (BucketList (filter (\<lambda>b. owner b = uid) (bucket_values s))), s))"

text \<open>
  The two checks that open every handler below: \<^verbatim>\<open>buckets[bucketId]\<close> must be truthy, and
  its \<^verbatim>\<open>owner\<close> must be the caller.  An inherited property is truthy and has no \<^verbatim>\<open>owner\<close>.
\<close>

definition bucket_access :: "state \<Rightarrow> jsstring \<Rightarrow> jsstring \<Rightarrow> error + uuid \<times> bucket" where
  "bucket_access s bucketId' uid =
     (case find (\<lambda>p. uuid_str (fst p) = bucketId') (buckets s) of
        None \<Rightarrow>
          if bucketId' \<in> set object_prototype_keys then Inl (Forbidden ''Access denied'')
          else Inl (NotFound ''Bucket not found'')
      | Some (u, b) \<Rightarrow>
          if owner b \<noteq> uid then Inl (Forbidden ''Access denied'') else Inr (u, b))"

subsection \<open>Documents\<close>

text \<open>
  \<^verbatim>\<open>databases[bucketId]\<close> once \<^verbatim>\<open>if (!databases[bucketId]) databases[bucketId] = {}\<close> has
  run.  Storing the changed object back with \<open>AList.update\<close> keeps the key's place, or
  appends the key that this line has just created.
\<close>

definition the_db :: "state \<Rightarrow> uuid \<Rightarrow> db" where
  "the_db s u = (case map_of (databases s) u of None \<Rightarrow> empty_db | Some d \<Rightarrow> d)"

text \<open>
  The object both write paths store: \<^verbatim>\<open>createdAt\<close> and \<^verbatim>\<open>updatedAt\<close> are two readings of
  the clock, \<^verbatim>\<open>size\<close> is the length of the serialised value in code units.
\<close>

definition new_item :: "json \<Rightarrow> time \<Rightarrow> time \<Rightarrow> item" where
  "new_item x t t' =
     \<lparr>data = x, createdAt = t, updatedAt = t', item_size = length (JSON_stringify x)\<rparr>"

text \<open>
  \<^verbatim>\<open>app.use(express.json())\<close> parses the body before any route runs.  In its strict mode,
  the default, it accepts an object or an array only and answers every other body with
  400 itself.  The write below takes the whole body as its payload; the other routes
  read fields of the body, and their requests are given by these fields.
\<close>

fun strict_body :: "json \<Rightarrow> bool" where
  "strict_body (JObj ps) = True"
| "strict_body (JArr xs) = True"
| "strict_body _ = False"

text \<open>
  \<^verbatim>\<open>PUT /api/buckets/:bucketId/data/*\<close>; the body is the payload.  The third reading of
  the clock is the \<^verbatim>\<open>timestamp\<close> of the response.
\<close>

definition put :: "credential \<Rightarrow> jsstring \<Rightarrow> jsstring \<Rightarrow> json \<Rightarrow> clock \<Rightarrow> state \<Rightarrow> result" where
  "put c bucketId' path' data' clk s =
     (if \<not> strict_body data' then (Inl BodyRejected, s)
      else
        authenticateToken c (\<lambda>uid s.
          case bucket_access s bucketId' uid of
            Inl e \<Rightarrow> (Inl e, s)
          | Inr (u, b) \<Rightarrow>
              let d = db_set (the_db s u) path' (new_item data' (clk 0) (clk 1))
              in (Inr (Stored bucketId' path' (clk 2)),
                  s\<lparr>buckets := AList.update u (b\<lparr>itemCount := length (db_keys d)\<rparr>) (buckets s),
                    databases := AList.update u d (databases s)\<rparr>)) s)"

text \<open>\<^verbatim>\<open>GET /api/buckets/:bucketId/data/*\<close>.\<close>

definition get :: "credential \<Rightarrow> jsstring \<Rightarrow> jsstring \<Rightarrow> state \<Rightarrow> result" where
  "get c bucketId' path' =
     authenticateToken c (\<lambda>uid s.
       case bucket_access s bucketId' uid of
         Inl e \<Rightarrow> (Inl e, s)
       | Inr (u, b) \<Rightarrow>
           let it = (case map_of (databases s) u of None \<Rightarrow> NoValue | Some d \<Rightarrow> db_get d path')
           in if \<not> slot_truthy it then (Inl (NotFound ''Data not found''), s)
              else (Inr (Found path' (slot_data it) (slot_createdAt it) (slot_updatedAt it)
                          (slot_size it)), s))"

text \<open>\<^verbatim>\<open>DELETE /api/buckets/:bucketId/data/*\<close>.\<close>

definition delete :: "credential \<Rightarrow> jsstring \<Rightarrow> jsstring \<Rightarrow> state \<Rightarrow> result" where
  "delete c bucketId' path' =
     authenticateToken c (\<lambda>uid s.
       case bucket_access s bucketId' uid of
         Inl e \<Rightarrow> (Inl e, s)
       | Inr (u, b) \<Rightarrow>
           (case map_of (databases s) u of
              None \<Rightarrow> (Inl (NotFound ''Data not found''), s)
            | Some d \<Rightarrow>
                if \<not> slot_truthy (db_get d path') then (Inl (NotFound ''Data not found''), s)
                else
                  let d' = db_delete d path'
                  in (Inr Deleted,
                      s\<lparr>buckets := AList.update u (b\<lparr>itemCount := length (db_keys d')\<rparr>) (buckets s),
                        databases := AList.update u d' (databases s)\<rparr>)))"

text \<open>\<^verbatim>\<open>GET /api/buckets/:bucketId/items\<close>.\<close>

definition item_listing :: "state \<Rightarrow> uuid \<Rightarrow> listing list" where
  "item_listing s u =
     (case map_of (databases s) u of
        None \<Rightarrow> []
      | Some d \<Rightarrow>
          map (\<lambda>p. \<lparr>entry_path = fst p, entry_size = item_size (snd p),
                    entry_createdAt = createdAt (snd p), entry_updatedAt = updatedAt (snd p)\<rparr>)
            (db_entries d))"

definition listItems :: "credential \<Rightarrow> jsstring \<Rightarrow> state \<Rightarrow> result" where
  "listItems c bucketId' =
     authenticateToken c (\<lambda>uid s.
       case bucket_access s bucketId' uid of
         Inl e \<Rightarrow> (Inl e, s)
       | Inr (u, b) \<Rightarrow>
           let items = item_listing s u in (Inr (Items bucketId' (length items) items), s))"

subsection \<open>Vector search\<close>

text \<open>
  \<^verbatim>\<open>xs.slice(0, e)\<close> for an integer \<open>e\<close>: a negative end counts from the end of the array.
\<close>

definition slice0 :: "'a list \<Rightarrow> int \<Rightarrow> 'a list" where
  "slice0 xs e =
     (let n = int (length xs) in take (nat (if e < 0 then max (n + e) 0 else min e n)) xs)"

text \<open>
  \<^verbatim>\<open>POST /api/buckets/:bucketId/vector-search\<close>.  \<open>topK'\<close> is the integer the body gives
  as \<^verbatim>\<open>topK\<close>, \<open>None\<close> when it gives none or \<^verbatim>\<open>null\<close> (a \<^verbatim>\<open>topK\<close> that is not an integer is
  outside this model); \<open>rnd i\<close> is the value of the \<open>i\<close>-th \<^verbatim>\<open>Math.random()\<close>.
\<close>

definition vectorQuery ::
  "credential \<Rightarrow> jsstring \<Rightarrow> json option \<Rightarrow> int option \<Rightarrow> (nat \<Rightarrow> real) \<Rightarrow> state \<Rightarrow> result" where
  "vectorQuery c bucketId' query' topK' rnd =
     authenticateToken c (\<lambda>uid s.
       case bucket_access s bucketId' uid of
         Inl e \<Rightarrow> (Inl e, s)
       | Inr (u, b) \<Rightarrow>
           let limit = (case topK' of None \<Rightarrow> 10 | Some k \<Rightarrow> if k = 0 then 10 else k);
               found = (case map_of (databases s) u of
                          None \<Rightarrow> []
                        | Some d \<Rightarrow> slice0 (db_entries d) limit)
           in (Inr (SearchResults query'
                 (map (\<lambda>ip. \<lparr>hit_path = fst (snd ip), hit_data = data (snd (snd ip)),
                              score = rnd (fst ip)\<rparr>)
                    (enumerate 0 found))), s))"

subsection \<open>Batch write\<close>

text \<open>
  The callback of \<^verbatim>\<open>items.map\<close> for the item at index \<open>i\<close>.  \<open>None\<close> is a thrown
  \<^verbatim>\<open>TypeError\<close>: destructuring \<^verbatim>\<open>null\<close>, \<^verbatim>\<open>JSON.stringify(undefined).length\<close> for an item
  without \<^verbatim>\<open>data\<close>, or a \<^verbatim>\<open>path\<close> with no string form.  Nothing is stored then.
\<close>

definition write_item :: "clock \<Rightarrow> nat \<Rightarrow> json \<Rightarrow> db \<Rightarrow> ((json option \<times> string) \<times> db) option" where
  "write_item clk i x d =
     (if x = JNull then None
      else
        (case (json_field x (js ''data''), to_property_key (json_field x (js ''path''))) of
           (Some v, Some k) \<Rightarrow>
             Some ((json_field x (js ''path''), ''success''),
                   db_set d k (new_item v (clk (2 * i)) (clk (2 * i + 1))))
         | _ \<Rightarrow> None))"

text \<open>
  \<^verbatim>\<open>items.map\<close>: the items in order, each on the store the earlier ones left.  When the
  callback throws, the exception leaves \<^verbatim>\<open>map\<close> with what has been stored so far.
\<close>

fun batch_items :: "clock \<Rightarrow> nat \<Rightarrow> json list \<Rightarrow> db \<Rightarrow> (json option \<times> string) list option \<times> db" where
  "batch_items clk i [] d = (Some [], d)"
| "batch_items clk i (x # xs) d =
     (case write_item clk i x d of
        None \<Rightarrow> (None, d)
      | Some (r, d') \<Rightarrow>
          (case batch_items clk (Suc i) xs d' of
             (None, d'') \<Rightarrow> (None, d'')
           | (Some rs, d'') \<Rightarrow> (Some (r # rs), d'')))"

text \<open>
  \<^verbatim>\<open>POST /api/buckets/:bucketId/batch-write\<close>.  The count is recomputed after \<^verbatim>\<open>map\<close>
  returns, so an exception skips it.
\<close>

definition batchWrite :: "credential \<Rightarrow> jsstring \<Rightarrow> json option \<Rightarrow> clock \<Rightarrow> state \<Rightarrow> result" where
  "batchWrite c bucketId' items' clk =
     authenticateToken c (\<lambda>uid s.
       case bucket_access s bucketId' uid of
         Inl e \<Rightarrow> (Inl e, s)
       | Inr (u, b) \<Rightarrow>
           (case items' of
              Some (JArr xs) \<Rightarrow>
                (case batch_items clk 0 xs (the_db s u) of
                   (None, d) \<Rightarrow> (Inl InternalError, s\<lparr>databases := AList.update u d (databases s)\<rparr>)
                 | (Some results, d) \<Rightarrow>
                     (Inr (BatchResults results (length xs)),
                      s\<lparr>buckets := AList.update u (b\<lparr>itemCount := length (db_keys d)\<rparr>) (buckets s),
                        databases := AList.update u d (databases s)\<rparr>))
            | _ \<Rightarrow> (Inl (BadRequest ''Items must be an array''), s)))"

section \<open>Sequences of requests\<close>

datatype request =
    Register "json option" "json option" "json option" uuid clock
  | Login "json option" "json option"
  | CreateBucket credential "json option" "json option" "json option" uuid clock
  | ListBuckets credential
  | Put credential jsstring jsstring json clock
  | Get credential jsstring jsstring
  | Delete credential jsstring jsstring
  | ListItems credential jsstring
  | VectorQuery credential jsstring "json option" "int option" "nat \<Rightarrow> real"
  | BatchWrite credential jsstring "json option" clock

fun step :: "request \<Rightarrow> state \<Rightarrow> result" where
  "step (Register e p n uid clk) = register e p n uid clk"
| "step (Login e p) = login e p"
| "step (CreateBucket c n d r bid clk) = createBucket c n d r bid clk"
| "step (ListBuckets c) = listBuckets c"
| "step (Put c b p x clk) = put c b p x clk"
| "step (Get c b p) = get c b p"
| "step (Delete c b p) = delete c b p"
| "step (ListItems c b) = listItems c b"
| "step (VectorQuery c b q k rnd) = vectorQuery c b q k rnd"
| "step (BatchWrite c b xs clk) = batchWrite c b xs clk"

text \<open>The responses of a sequence of requests, and the store it leaves.\<close>

fun run :: "request list \<Rightarrow> state \<Rightarrow> (error + response) list \<times> state" where
  "run [] s = ([], s)"
| "run (r # rs) s =
     (case step r s of (a, s') \<Rightarrow> (case run rs s' of (as, s'') \<Rightarrow> (a # as, s'')))"

section \<open>Bookkeeping\<close>

text \<open>
  The count a bucket's record holds is the number of own properties of its documents
  object.
\<close>

definition counted :: "state \<Rightarrow> bool" where
  "counted s =
     (\<forall>u b. map_of (buckets s) u = Some b \<longrightarrow> itemCount b = length (own (the_db s u)))"

text \<open>
  The buckets a sequence of requests creates, each with its owner: \<^verbatim>\<open>POST /api/buckets\<close>
  succeeds exactly when the token is valid and a name is given.
\<close>

definition created :: "request \<Rightarrow> (uuid \<times> jsstring) list" where
  "created r =
     (case r of
        CreateBucket (ValidToken uid) (Some n) d r' bid clk \<Rightarrow>
          if truthy (Some n) then [(bid, uid)] else []
      | _ \<Rightarrow> [])"

definition creations :: "request list \<Rightarrow> (uuid \<times> jsstring) list" where
  "creations rs = concat (map created rs)"

text \<open>The registry as a list of identifier, \<^verbatim>\<open>bucketId\<close> field and owner.\<close>

definition registry :: "state \<Rightarrow> (uuid \<times> jsstring \<times> jsstring) list" where
  "registry s = map (\<lambda>p. (fst p, bucketId (snd p), owner (snd p))) (buckets s)"

text \<open>
  No documents object has an own property \<^verbatim>\<open>__proto__\<close>: assigning to that path installs
  a prototype instead.
\<close>

definition proto_free :: "state \<Rightarrow> bool" where
  "proto_free s =
     (\<forall>u d. map_of (databases s) u = Some d \<longrightarrow> map_of (own d) (js ''__proto__'') = None)"

section \<open>Batch write as writes in order\<close>

text \<open>
  What the callback of the batch write needs from an item: the item is not \<^verbatim>\<open>null\<close>, it
  has \<^verbatim>\<open>data\<close>, and its \<^verbatim>\<open>path\<close> has a string form.
\<close>

definition writable :: "json \<Rightarrow> bool" where
  "writable x =
     (x \<noteq> JNull \<and> json_field x (js ''data'') \<noteq> None
      \<and> to_property_key (json_field x (js ''path'')) \<noteq> None)"

definition item_key :: "json \<Rightarrow> jsstring" where
  "item_key x = (case to_property_key (json_field x (js ''path'')) of None \<Rightarrow> [] | Some k \<Rightarrow> k)"

definition item_data :: "json \<Rightarrow> json" where
  "item_data x = (case json_field x (js ''data'') of None \<Rightarrow> JNull | Some v \<Rightarrow> v)"

text \<open>
  The single writes of a list of items, one after the other from index \<open>i\<close> on: each
  stores under the item's key what a \<^verbatim>\<open>PUT\<close> of the item's data would store.
\<close>

fun writes_in_order :: "clock \<Rightarrow> nat \<Rightarrow> json list \<Rightarrow> db \<Rightarrow> db" where
  "writes_in_order clk i [] d = d"
| "writes_in_order clk i (x # xs) d =
     writes_in_order clk (Suc i) xs
       (db_set d (item_key x) (new_item (item_data x) (clk (2 * i)) (clk (2 * i + 1))))"

section \<open>A small store\<close>

text \<open>
  A clock that starts at \<open>t\<close> and advances by one millisecond per reading, and a
  random source that always returns 0.
\<close>

definition ticking :: "time \<Rightarrow> clock" where
  "ticking t k = t + k"

definition no_score :: "nat \<Rightarrow> real" where
  "no_score i = 0"

text \<open>
  Two users, and the store after \<open>alice\<close> has created one bucket and written one
  document into it.
\<close>

definition alice :: jsstring where
  "alice = uuid_str (Uuid 0xA11CE 0 0 0 1)"

definition bob :: jsstring where
  "bob = uuid_str (Uuid 0xB0B 0 0 0 2)"

definition b1 :: uuid where
  "b1 = Uuid 1 2 3 4 5"

definition doc1 :: json where
  "doc1 = JObj [(js ''n'', JNum 1)]"

definition bucket1 :: bucket where
  "bucket1 =
     \<lparr>bucketId = uuid_str b1, name = JStr (js ''b1''), owner = alice,
      durability = JStr (js ''standard''), region = JStr (js ''us-east-1''),
      bucket_createdAt = 100, itemCount = 1\<rparr>"

definition store1 :: state where
  "store1 =
     \<lparr>users = [],
      buckets = [(b1, bucket1)],
      databases = [(b1, \<lparr>own = [(js ''u/1'', new_item doc1 200 201)], proto = None\<rparr>)]\<rparr>"

text \<open>Three buckets created in turn by \<open>alice\<close>, \<open>bob\<close> and \<open>alice\<close>.\<close>

definition b2 :: uuid where
  "b2 = Uuid 2 2 3 4 5"

definition b3 :: uuid where
  "b3 = Uuid 3 2 3 4 5"

definition three_buckets :: "request list" where
  "three_buckets =
     [CreateBucket (ValidToken alice) (Some (JStr (js ''first''))) None None b1 (ticking 100),
      CreateBucket (ValidToken bob) (Some (JStr (js ''second''))) None None b2 (ticking 110),
      CreateBucket (ValidToken alice) (Some (JStr (js ''third''))) None None b3 (ticking 120)]"

definition doc2 :: json where
  "doc2 = JObj [(js ''n'', JNum 2)]"

text \<open>The payload \<^verbatim>\<open>{"a":"\<close>e-acute\<^verbatim>\<open>"}\<close>: its string holds the single code unit \<open>0xE9\<close>.\<close>

definition accented :: json where
  "accented = JObj [(js ''a'', JStr [0xE9])]"

definition new_bucket1 :: request where
  "new_bucket1 = CreateBucket (ValidToken alice) (Some (JStr (js ''b1''))) None None b1 (ticking 100)"

text \<open>
  A batch of two items, and one whose second item has no \<^verbatim>\<open>data\<close>.
\<close>

definition batch_ok :: json where
  "batch_ok =
     JArr [JObj [(js ''path'', JStr (js ''a'')), (js ''data'', JNum 1)],
           JObj [(js ''path'', JStr (js ''b'')), (js ''data'', JNum 2)]]"

definition batch_broken :: json where
  "batch_broken =
     JArr [JObj [(js ''path'', JStr (js ''a'')), (js ''data'', JNum 1)],
           JObj [(js ''path'', JStr (js ''b''))],
           JObj [(js ''path'', JStr (js ''c'')), (js ''data'', JNum 3)]]"

text \<open>A store with one registered user, and one whose bucket holds three documents.\<close>

definition carol :: user where
  "carol =
     \<lparr>userId = uuid_str (Uuid 7 0 0 0 0), email = JStr (js ''dup@x.com''),
      password = JStr (js ''pw''), user_name = JStr (js ''User''), user_createdAt = 50\<rparr>"

definition store_users :: state where
  "store_users = \<lparr>users = [(js ''dup@x.com'', carol)], buckets = [], databases = []\<rparr>"

definition store3 :: state where
  "store3 =
     \<lparr>users = [],
      buckets = [(b1, bucket1\<lparr>itemCount := 3\<rparr>)],
      databases =
        [(b1, \<lparr>own = [(js ''u/1'', new_item doc1 200 201), (js ''a'', new_item (JNum 1) 300 301),
                        (js ''b'', new_item (JNum 2) 302 303)],
               proto = None\<rparr>)]\<rparr>"

section \<open>Properties\<close>

subsection \<open>Strings and identifiers\<close>

lemma length_js: "length (js s) = length s"
  by (simp add: js_def)

lemma length_hexs: "length (hexs n v) = n"
  by (induction n arbitrary: v) auto

lemma unat_hex_digit: "a < 16 \<Longrightarrow> unat (hex_digit a) = (if a < 10 then 48 + a else 87 + a)"
  by (simp add: hex_digit_def unat_of_nat del: of_nat_add)

lemma hex_digit_inj:
  assumes "a < 16" "b < 16" "hex_digit a = hex_digit b"
  shows "a = b"
proof -
  have "unat (hex_digit a) = unat (hex_digit b)"
    by (simp only: assms(3))
  then have "(if a < 10 then 48 + a else 87 + a) = (if b < 10 then 48 + b else 87 + b)"
    by (simp only: unat_hex_digit [OF assms(1)] unat_hex_digit [OF assms(2)])
  then show ?thesis
    by (cases "a < 10"; cases "b < 10"; simp)
qed

lemma hexs_inj: "hexs n v = hexs n w \<Longrightarrow> v mod 16 ^ n = w mod 16 ^ n"
proof (induction n arbitrary: v w)
  case 0
  then show ?case by simp
next
  case (Suc n)
  from Suc.prems have a: "hexs n (v div 16) = hexs n (w div 16)"
    and b: "hex_digit (v mod 16) = hex_digit (w mod 16)"
    by (simp_all add: length_hexs)
  from b have "v mod 16 = w mod 16" by (intro hex_digit_inj) simp_all
  moreover from Suc.IH [OF a] have "v div 16 mod 16 ^ n = w div 16 mod 16 ^ n" .
  ultimately show ?case by (simp add: mod_mult2_eq)
qed

lemma length_uuid_str: "length (uuid_str u) = 36"
  by (cases u) (simp add: length_hexs)

lemma uuid_str_inject: "uuid_str u = uuid_str v \<longleftrightarrow> u = v"
proof
  assume eq: "uuid_str u = uuid_str v"
  obtain a b c d e where u: "u = Uuid a b c d e" by (cases u)
  obtain a' b' c' d' e' where v: "v = Uuid a' b' c' d' e'" by (cases v)
  from eq have h: "hexs 8 (unat a) = hexs 8 (unat a')" "hexs 4 (unat b) = hexs 4 (unat b')"
    "hexs 4 (unat c) = hexs 4 (unat c')" "hexs 4 (unat d) = hexs 4 (unat d')"
    "hexs 12 (unat e) = hexs 12 (unat e')"
    unfolding u v uuid_str.simps by (simp_all add: length_hexs)
  have "unat a < 16 ^ 8" "unat a' < 16 ^ 8" using unsigned_less [of a] unsigned_less [of a'] by simp_all
  with hexs_inj [OF h(1)] have "a = a'" by (simp add: word_unat_eq_iff)
  moreover have "unat b < 16 ^ 4" "unat b' < 16 ^ 4" using unsigned_less [of b] unsigned_less [of b'] by simp_all
  with hexs_inj [OF h(2)] have "b = b'" by (simp add: word_unat_eq_iff)
  moreover have "unat c < 16 ^ 4" "unat c' < 16 ^ 4" using unsigned_less [of c] unsigned_less [of c'] by simp_all
  with hexs_inj [OF h(3)] have "c = c'" by (simp add: word_unat_eq_iff)
  moreover have "unat d < 16 ^ 4" "unat d' < 16 ^ 4" using unsigned_less [of d] unsigned_less [of d'] by simp_all
  with hexs_inj [OF h(4)] have "d = d'" by (simp add: word_unat_eq_iff)
  moreover have "unat e < 16 ^ 12" "unat e' < 16 ^ 12" using unsigned_less [of e] unsigned_less [of e'] by simp_all
  with hexs_inj [OF h(5)] have "e = e'" by (simp add: word_unat_eq_iff)
  ultimately show "u = v" by (simp add: u v)
qed simp

lemma uuid_str_not_builtin: "uuid_str u \<notin> set object_prototype_keys"
proof
  assume "uuid_str u \<in> set object_prototype_keys"
  then have "length (uuid_str u) \<le> 20"
    by (auto simp: object_prototype_keys_def length_js)
  then show False by (simp add: length_uuid_str)
qed

lemma uuid_str_not_index: "\<not> is_array_index (uuid_str u)"
  by (cases u) (simp add: is_array_index_def is_digit_def)

lemma js_order_no_index:
  assumes "\<And>p. p \<in> set ps \<Longrightarrow> \<not> is_array_index (fst p)"
  shows "js_order ps = ps"
proof -
  have "filter (\<lambda>p. is_array_index (fst p)) ps = []" using assms by (simp add: filter_empty_conv)
  moreover have "filter (\<lambda>p. \<not> is_array_index (fst p)) ps = ps" using assms by (simp add: filter_id_conv)
  ultimately show ?thesis by (simp add: js_order_def)
qed

lemma bucket_values_eq: "bucket_values s = map snd (buckets s)"
proof -
  have "js_order (map (\<lambda>p. (uuid_str (fst p), snd p)) (buckets s)) = map (\<lambda>p. (uuid_str (fst p), snd p)) (buckets s)"
    by (rule js_order_no_index) (auto simp: uuid_str_not_index)
  then show ?thesis by (simp add: bucket_values_def comp_def)
qed

lemma find_uuid:
  "find (\<lambda>p. uuid_str (fst p) = uuid_str u) bs = (case map_of bs u of None \<Rightarrow> None | Some b \<Rightarrow> Some (u, b))"
  by (induction bs) (auto simp: uuid_str_inject)

lemma bucket_access_uuid:
  "bucket_access s (uuid_str u) uid =
     (case map_of (buckets s) u of
        None \<Rightarrow> Inl (NotFound ''Bucket not found'')
      | Some b \<Rightarrow> if owner b \<noteq> uid then Inl (Forbidden ''Access denied'') else Inr (u, b))"
  by (simp add: bucket_access_def find_uuid uuid_str_not_builtin split: option.splits)

lemma js_inject [simp]: "js a = js b \<longleftrightarrow> a = b"
proof -
  have "inj (\<lambda>c. word_of_nat (of_char c) :: 16 word)"
  proof (rule injI)
    fix c d :: char
    assume "(word_of_nat (of_char c) :: 16 word) = word_of_nat (of_char d)"
    then have "take_bit 16 (of_char c :: nat) = take_bit 16 (of_char d :: nat)"
      by (simp add: word_of_nat_eq_iff)
    moreover have "(of_char c :: nat) < 2 ^ 16" "(of_char d :: nat) < 2 ^ 16"
      by (rule order.strict_trans [OF nat_of_char_less_256], simp)+
    ultimately have "(of_char c :: nat) = of_char d"
      by (simp add: take_bit_nat_eq_self)
    then show "c = d" by simp
  qed
  then show ?thesis by (simp add: js_def inj_map_eq_map)
qed

lemma alice_neq_bob: "alice \<noteq> bob"
  by (simp only: alice_def bob_def uuid_str_inject) simp

subsection \<open>Requests that fail\<close>

lemma register_failure: "register e p n uid clk s = (Inl err, s') \<Longrightarrow> s' = s"
  by (auto simp: register_def split: if_splits option.splits lookup.splits)

lemma login_store: "login e p s = (a, s') \<Longrightarrow> s' = s"
  by (auto simp: login_def split: if_splits option.splits lookup.splits)

lemma createBucket_failure: "createBucket c n d r bid clk s = (Inl err, s') \<Longrightarrow> s' = s"
  by (auto simp: createBucket_def authenticateToken_def split: option.splits if_splits credential.splits)

lemma listBuckets_store: "listBuckets c s = (a, s') \<Longrightarrow> s' = s"
  by (auto simp: listBuckets_def authenticateToken_def split: credential.splits)

lemma put_failure: "put c k p x clk s = (Inl err, s') \<Longrightarrow> s' = s"
  by (auto simp: put_def authenticateToken_def Let_def split: if_splits credential.splits sum.splits)

lemma get_store: "get c k p s = (a, s') \<Longrightarrow> s' = s"
  by (auto simp: get_def authenticateToken_def Let_def split: credential.splits sum.splits if_splits)

lemma delete_failure: "delete c k p s = (Inl err, s') \<Longrightarrow> s' = s"
  by (auto simp: delete_def authenticateToken_def Let_def split: credential.splits sum.splits option.splits if_splits)

lemma listItems_store: "listItems c k s = (a, s') \<Longrightarrow> s' = s"
  by (auto simp: listItems_def authenticateToken_def Let_def split: credential.splits sum.splits)

lemma vectorQuery_store: "vectorQuery c k q t rnd s = (a, s') \<Longrightarrow> s' = s"
  by (auto simp: vectorQuery_def authenticateToken_def Let_def split: credential.splits sum.splits)

lemma batchWrite_failure:
  "batchWrite c k xs clk s = (Inl err, s') \<Longrightarrow> err \<noteq> InternalError \<Longrightarrow> s' = s"
  by (auto simp: batchWrite_def authenticateToken_def
      split: credential.splits sum.splits option.splits json.splits prod.splits)

text \<open>
  Claim C10.  A request that is answered with 400, 401, 403, 404 or 409 leaves the store
  as it was: the users, the buckets with their item counts, and every bucket's documents.
  (An exception inside batch write, answered with 500, is not among these.)
\<close>

theorem failed_request_leaves_store:
  assumes "step r s = (Inl e, s')" and "e \<noteq> InternalError"
  shows "s' = s"
proof (cases r)
  case (Register x1 x2 x3 x4 x5)
  with assms show ?thesis by (simp add: register_failure)
next
  case (Login x1 x2)
  with assms show ?thesis by (simp add: login_store)
next
  case (CreateBucket x1 x2 x3 x4 x5 x6)
  with assms show ?thesis by (simp add: createBucket_failure)
next
  case (ListBuckets x1)
  with assms show ?thesis by (simp add: listBuckets_store)
next
  case (Put x1 x2 x3 x4 x5)
  with assms show ?thesis by (simp add: put_failure)
next
  case (Get x1 x2 x3)
  with assms show ?thesis by (simp add: get_store)
next
  case (Delete x1 x2 x3)
  with assms show ?thesis by (simp add: delete_failure)
next
  case (ListItems x1 x2)
  with assms show ?thesis by (simp add: listItems_store)
next
  case (VectorQuery x1 x2 x3 x4 x5)
  with assms show ?thesis by (simp add: vectorQuery_store)
next
  case (BatchWrite x1 x2 x3 x4)
  with assms show ?thesis by (simp add: batchWrite_failure)
qed

theorem failed_request_leaves_store_witness:
  "fst (step (Delete (ValidToken alice) (uuid_str b1) (js ''v/9'')) store1)
     = Inl (NotFound ''Data not found'')
   \<and> snd (step (Delete (ValidToken alice) (uuid_str b1) (js ''v/9'')) store1) = store1"
proof -
  let ?r = "Delete (ValidToken alice) (uuid_str b1) (js ''v/9'')"
  have a: "fst (step ?r store1) = Inl (NotFound ''Data not found'')"
    by (simp add: delete_def authenticateToken_def bucket_access_uuid store1_def bucket1_def
        db_get_def object_prototype_keys_def)
  then have "step ?r store1 = (Inl (NotFound ''Data not found''), snd (step ?r store1))"
    by (simp add: prod_eq_iff)
  from failed_request_leaves_store [OF this] have "snd (step ?r store1) = store1"
    by simp
  with a show ?thesis by simp
qed

subsection \<open>Isolation between owners\<close>

text \<open>
  Claim C3.  On a bucket that exists and belongs to somebody else, reading, writing (any
  payload that the body parser lets through, that is, any object or array), deleting and
  listing are all answered with 403, whatever the path and whether or not a document is
  stored there; the store is not touched.
\<close>

theorem cross_tenant_forbidden:
  assumes "map_of (buckets s) u = Some b" and "owner b \<noteq> q" and "strict_body x"
  shows "get (ValidToken q) (uuid_str u) p s = (Inl (Forbidden ''Access denied''), s)
       \<and> put (ValidToken q) (uuid_str u) p x clk s = (Inl (Forbidden ''Access denied''), s)
       \<and> delete (ValidToken q) (uuid_str u) p s = (Inl (Forbidden ''Access denied''), s)
       \<and> listItems (ValidToken q) (uuid_str u) s = (Inl (Forbidden ''Access denied''), s)"
  using assms
  by (simp add: get_def put_def delete_def listItems_def authenticateToken_def bucket_access_uuid)

theorem cross_tenant_forbidden_witness:
  "map_of (buckets store1) b1 = Some bucket1 \<and> owner bucket1 \<noteq> bob
   \<and> get (ValidToken bob) (uuid_str b1) (js ''u/1'') store1
       = (Inl (Forbidden ''Access denied''), store1)
   \<and> strict_body doc2
   \<and> put (ValidToken bob) (uuid_str b1) (js ''u/1'') doc2 (ticking 300) store1
       = (Inl (Forbidden ''Access denied''), store1)
   \<and> delete (ValidToken bob) (uuid_str b1) (js ''u/1'') store1
       = (Inl (Forbidden ''Access denied''), store1)
   \<and> listItems (ValidToken bob) (uuid_str b1) store1
       = (Inl (Forbidden ''Access denied''), store1)"
proof -
  have a: "map_of (buckets store1) b1 = Some bucket1"
    by (simp add: store1_def)
  have b: "owner bucket1 \<noteq> bob"
    by (simp add: bucket1_def alice_neq_bob)
  have c: "strict_body doc2"
    by (simp add: doc2_def)
  from cross_tenant_forbidden [OF a b c] a b c show ?thesis
    by blast
qed

subsection \<open>Item counts\<close>

lemma length_js_order: "length (js_order ps) = length ps"
  by (simp add: js_order_def sum_length_filter_compl)

lemma set_js_order: "set (js_order ps) = set ps"
  by (auto simp: js_order_def)

lemma length_db_keys: "length (db_keys d) = length (own d)"
  by (simp add: db_keys_def length_js_order)

lemma length_item_listing: "length (item_listing s u) = length (own (the_db s u))"
  by (simp add: item_listing_def the_db_def db_entries_def length_js_order empty_db_def
      split: option.splits)

lemma the_db_update:
  "the_db (s\<lparr>buckets := bs, databases := AList.update u d (databases s)\<rparr>) v
     = (if v = u then d else the_db s v)"
  by (simp add: the_db_def update_conv')

lemma find_SomeD: "find P xs = Some x \<Longrightarrow> P x"
  by (induction xs) (auto split: if_splits)

lemma js_Nil [simp]: "js s = [] \<longleftrightarrow> s = []"
  by (simp add: js_def)

lemma bucket_access_Inr:
  assumes "bucket_access s k uid = Inr (u, b)"
  shows "k = uuid_str u \<and> map_of (buckets s) u = Some b \<and> owner b = uid"
proof -
  from assms have p: "find (\<lambda>p. uuid_str (fst p) = k) (buckets s) = Some (u, b)"
    and o: "owner b = uid"
    by (auto simp: bucket_access_def split: option.splits if_splits)
  from find_SomeD [OF p] have k: "k = uuid_str u" by simp
  with p have "map_of (buckets s) u = Some b"
    by (simp add: find_uuid split: option.splits)
  with k o show ?thesis by simp
qed

lemma counted_store:
  assumes "counted s"
  shows "counted (s\<lparr>buckets := AList.update u (b\<lparr>itemCount := length (db_keys d)\<rparr>) (buckets s),
                    databases := AList.update u d (databases s)\<rparr>)"
  using assms by (auto simp: counted_def update_conv' the_db_def length_db_keys)

lemma counted_put: "counted s \<Longrightarrow> put c k p x clk s = (a, s') \<Longrightarrow> counted s'"
  by (auto simp: put_def authenticateToken_def Let_def counted_store
      split: if_splits credential.splits sum.splits)

lemma counted_delete: "counted s \<Longrightarrow> delete c k p s = (a, s') \<Longrightarrow> counted s'"
  by (auto simp: delete_def authenticateToken_def Let_def counted_store
      split: credential.splits sum.splits option.splits if_splits)

lemma counted_batchWrite:
  "counted s \<Longrightarrow> batchWrite c k xs clk s = (a, s') \<Longrightarrow> a \<noteq> Inl InternalError \<Longrightarrow> counted s'"
  by (auto simp: batchWrite_def authenticateToken_def counted_store
      split: credential.splits sum.splits option.splits json.splits prod.splits)

lemma counted_create:
  assumes "counted s" and "itemCount b = 0"
  shows "counted (s\<lparr>buckets := AList.update u b (buckets s),
                    databases := AList.update u empty_db (databases s)\<rparr>)"
  using assms by (auto simp: counted_def update_conv' the_db_def empty_db_def)

lemma counted_createBucket: "counted s \<Longrightarrow> createBucket c n d r bid clk s = (a, s') \<Longrightarrow> counted s'"
  by (auto simp: createBucket_def authenticateToken_def counted_create
      split: credential.splits option.splits if_splits)

lemma counted_users: "counted (s\<lparr>users := us\<rparr>) = counted s"
  by (simp add: counted_def the_db_def)

lemma counted_register: "counted s \<Longrightarrow> register e p n uid clk s = (a, s') \<Longrightarrow> counted s'"
  by (auto simp: register_def counted_users split: if_splits option.splits lookup.splits)

lemma counted_step:
  assumes "counted s" and "step r s = (a, s')" and "a \<noteq> Inl InternalError"
  shows "counted s'"
proof (cases r)
  case (Register x1 x2 x3 x4 x5)
  with assms show ?thesis by (auto dest: counted_register)
next
  case (Login x1 x2)
  with assms show ?thesis by (auto dest: login_store)
next
  case (CreateBucket x1 x2 x3 x4 x5 x6)
  with assms show ?thesis by (auto dest: counted_createBucket)
next
  case (ListBuckets x1)
  with assms show ?thesis by (auto dest: listBuckets_store)
next
  case (Put x1 x2 x3 x4 x5)
  with assms show ?thesis by (auto dest: counted_put)
next
  case (Get x1 x2 x3)
  with assms show ?thesis by (auto dest: get_store)
next
  case (Delete x1 x2 x3)
  with assms show ?thesis by (auto dest: counted_delete)
next
  case (ListItems x1 x2)
  with assms show ?thesis by (auto dest: listItems_store)
next
  case (VectorQuery x1 x2 x3 x4 x5)
  with assms show ?thesis by (auto dest: vectorQuery_store)
next
  case (BatchWrite x1 x2 x3 x4)
  with assms show ?thesis by (auto dest: counted_batchWrite)
qed

lemma counted_run:
  "counted s \<Longrightarrow> run rs s = (as, s') \<Longrightarrow> Inl InternalError \<notin> set as \<Longrightarrow> counted s'"
proof (induction rs arbitrary: s as)
  case Nil
  then show ?case by simp
next
  case (Cons r rs)
  obtain a s1 where r: "step r s = (a, s1)" by (cases "step r s")
  obtain bs s2 where rs: "run rs s1 = (bs, s2)" by (cases "run rs s1")
  from Cons.prems(2) r rs have as: "as = a # bs" and s': "s' = s2" by simp_all
  from Cons.prems(3) as have "a \<noteq> Inl InternalError" "Inl InternalError \<notin> set bs" by auto
  with Cons.prems(1) r have "counted s1" by (auto intro: counted_step)
  with Cons.IH [of s1 bs] rs \<open>Inl InternalError \<notin> set bs\<close> s' show ?case by simp
qed

lemma counted_init: "counted init"
  by (simp add: counted_def init_def)

lemma run_store1:
  "run [CreateBucket (ValidToken alice) (Some (JStr (js ''b1''))) None None b1 (ticking 100),
        Put (ValidToken alice) (uuid_str b1) (js ''u/1'') doc1 (ticking 200)] init
   = ([Inr (BucketCreated (uuid_str b1) (JStr (js ''b1''))),
       Inr (Stored (uuid_str b1) (js ''u/1'') 202)], store1)"
  by (simp add: createBucket_def put_def authenticateToken_def bucket_access_uuid init_def
      store1_def bucket1_def or_default_def the_db_def db_set_def empty_db_def length_db_keys
      ticking_def doc1_def)

text \<open>
  Claim C2.  Start from the empty store and let any requests be answered, none of them
  with 500 (so every write, delete and batch write that changed the store has
  succeeded).  Then for every bucket the \<^verbatim>\<open>itemCount\<close> of its record is the number of
  items that listing the bucket returns.
\<close>

theorem itemCount_matches_list:
  assumes "run rs init = (as, s)" and "Inl InternalError \<notin> set as"
    and "map_of (buckets s) u = Some b"
  shows "listItems (ValidToken (owner b)) (uuid_str u) s
           = (Inr (Items (uuid_str u) (itemCount b) (item_listing s u)), s)
         \<and> length (item_listing s u) = itemCount b"
proof -
  from counted_run [OF counted_init assms(1,2)] assms(3)
  have "itemCount b = length (own (the_db s u))" by (simp add: counted_def)
  then have "length (item_listing s u) = itemCount b" by (simp add: length_item_listing)
  with assms(3) show ?thesis
    by (simp add: listItems_def authenticateToken_def bucket_access_uuid Let_def)
qed

theorem itemCount_matches_list_witness:
  "run [CreateBucket (ValidToken alice) (Some (JStr (js ''b1''))) None None b1 (ticking 100),
        Put (ValidToken alice) (uuid_str b1) (js ''u/1'') doc1 (ticking 200)] init
     = ([Inr (BucketCreated (uuid_str b1) (JStr (js ''b1''))),
         Inr (Stored (uuid_str b1) (js ''u/1'') 202)], store1)
   \<and> map_of (buckets store1) b1 = Some bucket1
   \<and> listItems (ValidToken (owner bucket1)) (uuid_str b1) store1
       = (Inr (Items (uuid_str b1) (itemCount bucket1) (item_listing store1 b1)), store1)
   \<and> length (item_listing store1 b1) = itemCount bucket1
   \<and> itemCount bucket1 = 1"
proof -
  have a: "map_of (buckets store1) b1 = Some bucket1"
    by (simp add: store1_def)
  have b: "Inl InternalError \<notin> set [Inr (BucketCreated (uuid_str b1) (JStr (js ''b1''))),
      Inr (Stored (uuid_str b1) (js ''u/1'') 202)]"
    by simp
  have c: "itemCount bucket1 = 1"
    by (simp add: bucket1_def)
  from itemCount_matches_list [OF run_store1 b a] run_store1 a c show ?thesis
    by blast
qed

subsection \<open>Listing buckets\<close>

lemma update_fresh: "k \<notin> fst ` set al \<Longrightarrow> AList.update k v al = al @ [(k, v)]"
  by (induction al) auto

lemma map_update_same:
  assumes "map_of al k = Some v" and "f (k, v') = f (k, v)"
  shows "map f (AList.update k v' al) = map f al"
  using assms by (induction al) (auto split: if_splits)

lemma registry_databases: "registry (s\<lparr>databases := ds\<rparr>) = registry s"
  by (simp add: registry_def)

lemma registry_users: "registry (s\<lparr>users := us\<rparr>) = registry s"
  by (simp add: registry_def)

lemma registry_recount:
  assumes "map_of (buckets s) u = Some b"
  shows "registry (s\<lparr>buckets := AList.update u (b\<lparr>itemCount := n\<rparr>) (buckets s)\<rparr>) = registry s"
  using assms by (simp add: registry_def map_update_same)

lemma registry_put: "put c k p x clk s = (a, s') \<Longrightarrow> registry s' = registry s"
  by (auto simp: put_def authenticateToken_def Let_def registry_recount registry_databases
      split: if_splits credential.splits sum.splits dest!: bucket_access_Inr)

lemma registry_delete: "delete c k p s = (a, s') \<Longrightarrow> registry s' = registry s"
  by (auto simp: delete_def authenticateToken_def Let_def registry_recount registry_databases
      split: credential.splits sum.splits option.splits if_splits dest!: bucket_access_Inr)

lemma registry_batchWrite: "batchWrite c k xs clk s = (a, s') \<Longrightarrow> registry s' = registry s"
  by (auto simp: batchWrite_def authenticateToken_def registry_recount registry_databases
      split: credential.splits sum.splits option.splits json.splits prod.splits
      dest!: bucket_access_Inr)

lemma registry_register: "register e p n uid clk s = (a, s') \<Longrightarrow> registry s' = registry s"
  by (auto simp: register_def registry_users split: if_splits option.splits lookup.splits)

lemma registry_createBucket:
  assumes "createBucket c n d r bid clk s = (a, s')"
    and "fst ` set (created (CreateBucket c n d r bid clk)) \<inter> fst ` set (buckets s) = {}"
  shows "registry s' = registry s
           @ map (\<lambda>c. (fst c, uuid_str (fst c), snd c)) (created (CreateBucket c n d r bid clk))"
  using assms
  by (auto simp: createBucket_def authenticateToken_def created_def registry_def update_fresh
      split: credential.splits option.splits if_splits)

lemma registry_step:
  assumes "step r s = (a, s')" and "fst ` set (created r) \<inter> fst ` set (buckets s) = {}"
  shows "registry s' = registry s @ map (\<lambda>c. (fst c, uuid_str (fst c), snd c)) (created r)"
proof (cases r)
  case (Register x1 x2 x3 x4 x5)
  with assms show ?thesis by (auto simp: created_def dest: registry_register)
next
  case (Login x1 x2)
  with assms show ?thesis by (auto simp: created_def dest: login_store)
next
  case (CreateBucket x1 x2 x3 x4 x5 x6)
  with assms show ?thesis by (simp add: registry_createBucket)
next
  case (ListBuckets x1)
  with assms show ?thesis by (auto simp: created_def dest: listBuckets_store)
next
  case (Put x1 x2 x3 x4 x5)
  with assms show ?thesis by (auto simp: created_def dest: registry_put)
next
  case (Get x1 x2 x3)
  with assms show ?thesis by (auto simp: created_def dest: get_store)
next
  case (Delete x1 x2 x3)
  with assms show ?thesis by (auto simp: created_def dest: registry_delete)
next
  case (ListItems x1 x2)
  with assms show ?thesis by (auto simp: created_def dest: listItems_store)
next
  case (VectorQuery x1 x2 x3 x4 x5)
  with assms show ?thesis by (auto simp: created_def dest: vectorQuery_store)
next
  case (BatchWrite x1 x2 x3 x4)
  with assms show ?thesis by (auto simp: created_def dest: registry_batchWrite)
qed

lemma filter_paired:
  "map (\<lambda>x. (f x, g x)) xs = map (\<lambda>y. (f' y, g' y)) ys \<Longrightarrow>
   map f (filter (\<lambda>x. g x = P) xs) = map f' (filter (\<lambda>y. g' y = P) ys)"
proof (induction xs arbitrary: ys)
  case Nil
  then show ?case by simp
next
  case (Cons x xs)
  then obtain y ys' where ys: "ys = y # ys'" by (cases ys) auto
  with Cons.prems have "f x = f' y" "g x = g' y"
    and "map (\<lambda>x. (f x, g x)) xs = map (\<lambda>y. (f' y, g' y)) ys'"
    by simp_all
  with Cons.IH [of ys'] ys show ?case by simp
qed

lemma keys_registry: "map fst (registry s) = map fst (buckets s)"
  by (simp add: registry_def)

lemma registry_run:
  "run rs s = (as, s') \<Longrightarrow> distinct (map fst (buckets s) @ map fst (creations rs)) \<Longrightarrow>
   registry s' = registry s @ map (\<lambda>c. (fst c, uuid_str (fst c), snd c)) (creations rs)"
proof (induction rs arbitrary: s as)
  case Nil
  then show ?case by (simp add: creations_def)
next
  case (Cons r rs)
  obtain a s1 where r: "step r s = (a, s1)" by (cases "step r s")
  obtain bs s2 where rs: "run rs s1 = (bs, s2)" by (cases "run rs s1")
  from Cons.prems(1) r rs have s': "s' = s2" by simp
  have cr: "creations (r # rs) = created r @ creations rs" by (simp add: creations_def)
  from Cons.prems(2) have "fst ` set (created r) \<inter> fst ` set (buckets s) = {}"
    by (auto simp: cr)
  from registry_step [OF r this]
  have s1: "registry s1 = registry s @ map (\<lambda>c. (fst c, uuid_str (fst c), snd c)) (created r)" .
  then have "map fst (registry s1) = map fst (registry s) @ map fst (created r)"
    by (simp add: comp_def)
  then have "map fst (buckets s1) = map fst (buckets s) @ map fst (created r)"
    by (simp only: keys_registry)
  with Cons.prems(2) have "distinct (map fst (buckets s1) @ map fst (creations rs))"
    by (simp add: cr)
  moreover from rs s' have "run rs s1 = (bs, s')" by simp
  ultimately have "registry s' = registry s1
      @ map (\<lambda>c. (fst c, uuid_str (fst c), snd c)) (creations rs)"
    by (rule Cons.IH [rotated])
  with s1 show ?case by (simp add: cr)
qed

text \<open>
  Claim C8.  Start from the empty store and let any requests be answered, the identifiers
  drawn for the buckets created being pairwise different.  Then \<^verbatim>\<open>GET /api/buckets\<close> for a
  user returns exactly the buckets of the registry that this user owns, in the order in
  which they were created, and the empty list when the user has created none.
\<close>

theorem listBuckets_creation_order:
  assumes "run rs init = (as, s)" and "distinct (map fst (creations rs))"
  shows "\<exists>bs. listBuckets (ValidToken P) s = (Inr (BucketList bs), s)
           \<and> bs = filter (\<lambda>b. owner b = P) (map snd (buckets s))
           \<and> map bucketId bs = map (\<lambda>c. uuid_str (fst c)) (filter (\<lambda>c. snd c = P) (creations rs))
           \<and> (P \<notin> snd ` set (creations rs) \<longrightarrow> bs = [])"
proof -
  let ?bs = "filter (\<lambda>b. owner b = P) (map snd (buckets s))"
  have a: "listBuckets (ValidToken P) s = (Inr (BucketList ?bs), s)"
    by (simp add: listBuckets_def authenticateToken_def bucket_values_eq)
  from registry_run [OF assms(1)] assms(2)
  have reg: "registry s = map (\<lambda>c. (fst c, uuid_str (fst c), snd c)) (creations rs)"
    by (simp add: init_def registry_def)
  have "map snd (registry s) = map snd (map (\<lambda>c. (fst c, uuid_str (fst c), snd c)) (creations rs))"
    by (simp only: reg)
  then have "map (\<lambda>p. (bucketId (snd p), owner (snd p))) (buckets s)
      = map (\<lambda>c. (uuid_str (fst c), snd c)) (creations rs)"
    by (simp add: registry_def comp_def)
  from filter_paired [OF this]
  have b: "map bucketId ?bs
      = map (\<lambda>c. uuid_str (fst c)) (filter (\<lambda>c. snd c = P) (creations rs))"
    by (simp add: filter_map comp_def)
  have c: "P \<notin> snd ` set (creations rs) \<longrightarrow> ?bs = []"
  proof
    assume "P \<notin> snd ` set (creations rs)"
    then have "filter (\<lambda>c. snd c = P) (creations rs) = []"
      by (auto simp: filter_empty_conv)
    with b have "map bucketId ?bs = []" by simp
    then show "?bs = []" by simp
  qed
  from a b c show ?thesis by blast
qed

theorem listBuckets_creation_order_witness:
  "distinct (map fst (creations three_buckets))
   \<and> (\<exists>bs. listBuckets (ValidToken alice) (snd (run three_buckets init))
               = (Inr (BucketList bs), snd (run three_buckets init))
            \<and> map bucketId bs = [uuid_str b1, uuid_str b3])"
proof -
  have cr: "creations three_buckets = [(b1, alice), (b2, bob), (b3, alice)]"
    by (simp add: creations_def created_def three_buckets_def)
  have d: "distinct (map fst (creations three_buckets))"
    by (simp add: cr b1_def b2_def b3_def)
  have r: "run three_buckets init = (fst (run three_buckets init), snd (run three_buckets init))"
    by simp
  have f: "filter (\<lambda>c. snd c = alice) (creations three_buckets) = [(b1, alice), (b3, alice)]"
    using alice_neq_bob by (auto simp: cr)
  from listBuckets_creation_order [OF r d, of alice]
  obtain bs where "listBuckets (ValidToken alice) (snd (run three_buckets init))
      = (Inr (BucketList bs), snd (run three_buckets init))"
    and "map bucketId bs = [uuid_str b1, uuid_str b3]"
    by (auto simp: f)
  then have "listBuckets (ValidToken alice) (snd (run three_buckets init))
      = (Inr (BucketList bs), snd (run three_buckets init))
    \<and> map bucketId bs = [uuid_str b1, uuid_str b3]"
    by (rule conjI)
  then have "\<exists>bs. listBuckets (ValidToken alice) (snd (run three_buckets init))
      = (Inr (BucketList bs), snd (run three_buckets init))
    \<and> map bucketId bs = [uuid_str b1, uuid_str b3]"
    by (rule exI)
  with d show ?thesis by (rule conjI)
qed

subsection \<open>Evaluating requests\<close>

lemmas handler_defs =
  register_def login_def createBucket_def listBuckets_def put_def get_def delete_def
  listItems_def vectorQuery_def batchWrite_def authenticateToken_def bucket_access_uuid
  bucket_values_eq or_default_def the_db_def db_set_def db_get_def db_delete_def
  empty_db_def new_item_def item_listing_def db_entries_def length_db_keys obj_get_def
  to_property_key_def write_item_def slice0_def

lemmas string_defs =
  js_def object_prototype_keys_def js_order_def is_array_index_def is_digit_def
  quote_json_string_def quote_code_unit_def is_lead_def is_trail_def number_to_string_def
  dec_digits.simps

lemmas example_defs =
  init_def new_bucket1_def ticking_def no_score_def doc1_def doc2_def accented_def
  batch_ok_def batch_broken_def

subsection \<open>Overwriting a document\<close>

text \<open>
  Claim C1.  Two writes to the same path, at 200 ms and at 500 ms, then a read: the
  payload is the second one and \<^verbatim>\<open>updatedAt\<close> is the time of the second write, but
  \<^verbatim>\<open>createdAt\<close> is 500, the time of the second write, where the claim asks for 200, the
  time of the first.  The handler stamps both fields on every write.
\<close>

theorem overwrite_restamps_createdAt:
  "fst (run [new_bucket1,
             Put (ValidToken alice) (uuid_str b1) (js ''u/1'') doc1 (ticking 200),
             Put (ValidToken alice) (uuid_str b1) (js ''u/1'') doc2 (ticking 500),
             Get (ValidToken alice) (uuid_str b1) (js ''u/1'')] init)
   = [Inr (BucketCreated (uuid_str b1) (JStr (js ''b1''))),
      Inr (Stored (uuid_str b1) (js ''u/1'') 202),
      Inr (Stored (uuid_str b1) (js ''u/1'') 502),
      Inr (Found (js ''u/1'') (Json doc2) (Date 500) (Date 501) (Number 7))]"
  by (simp add: handler_defs example_defs string_defs)

subsection \<open>Reading back what was written\<close>

text \<open>
  Claim C4.  The payload read back is the payload written, but the \<^verbatim>\<open>size\<close> stored with
  it is the number of UTF-16 code units of the serialised payload, not its number of
  bytes: the nine code units of \<^verbatim>\<open>{"a":"\<close>e-acute\<^verbatim>\<open>"}\<close> are ten bytes in UTF-8.
\<close>

theorem size_counts_code_units:
  "fst (run [new_bucket1,
             Put (ValidToken alice) (uuid_str b1) (js ''u/1'') accented (ticking 200),
             Get (ValidToken alice) (uuid_str b1) (js ''u/1'')] init)
   = [Inr (BucketCreated (uuid_str b1) (JStr (js ''b1''))),
      Inr (Stored (uuid_str b1) (js ''u/1'') 202),
      Inr (Found (js ''u/1'') (Json accented) (Date 200) (Date 201) (Number 9))]
   \<and> utf8_length (JSON_stringify accented) = 10"
  by (simp add: handler_defs example_defs string_defs)

subsection \<open>Deleting\<close>

text \<open>
  Claim C5.  The handler looks the path up with \<^verbatim>\<open>databases[bucketId][path]\<close>, which also
  finds what the object inherits.  Deleting \<^verbatim>\<open>toString\<close> from a bucket that holds no
  document succeeds, and after a document at \<^verbatim>\<open>constructor\<close> has been written and
  deleted, deleting it a second time succeeds again, where the claim asks for 404.
\<close>

theorem delete_twice_succeeds:
  "fst (run [new_bucket1,
             Delete (ValidToken alice) (uuid_str b1) (js ''toString''),
             Put (ValidToken alice) (uuid_str b1) (js ''constructor'') doc1 (ticking 200),
             Delete (ValidToken alice) (uuid_str b1) (js ''constructor''),
             Delete (ValidToken alice) (uuid_str b1) (js ''constructor'')] init)
   = [Inr (BucketCreated (uuid_str b1) (JStr (js ''b1''))),
      Inr Deleted,
      Inr (Stored (uuid_str b1) (js ''constructor'') 202),
      Inr Deleted,
      Inr Deleted]"
  by (simp add: handler_defs example_defs string_defs)

subsection \<open>Batch write\<close>

lemma write_item_writable:
  "writable x \<Longrightarrow> write_item clk i x d =
     Some ((json_field x (js ''path''), ''success''),
           db_set d (item_key x) (new_item (item_data x) (clk (2 * i)) (clk (2 * i + 1))))"
  by (auto simp: writable_def write_item_def item_key_def item_data_def split: option.splits)

lemma write_item_not_writable: "\<not> writable x \<Longrightarrow> write_item clk i x d = None"
  by (auto simp: writable_def write_item_def split: option.splits)

lemma batch_items_prefix:
  "batch_items clk i xs d =
     (if list_all writable xs then Some (map (\<lambda>x. (json_field x (js ''path''), ''success'')) xs)
      else None,
      writes_in_order clk i (takeWhile writable xs) d)"
proof (induction xs arbitrary: i d)
  case Nil
  then show ?case by simp
next
  case (Cons x xs)
  show ?case
  proof (cases "writable x")
    case True
    then show ?thesis by (simp add: write_item_writable Cons.IH)
  next
    case False
    then show ?thesis by (simp add: write_item_not_writable)
  qed
qed

text \<open>
  On a bucket of the caller's, a batch write stores the items in input order, each as a
  single write would, up to the first item that cannot be written.  When every item can
  be written, the response has one entry per item, in input order, each with the item's
  path and the status \<^verbatim>\<open>success\<close>.  Otherwise the exception leaves the handler: the
  request is answered with 500, the items before the first unwritable one stay stored
  and the later ones are not written.
\<close>

lemma batchWrite_in_order:
  assumes "map_of (buckets s) u = Some b" and "owner b = uid"
  shows "(list_all writable xs \<longrightarrow>
            fst (batchWrite (ValidToken uid) (uuid_str u) (Some (JArr xs)) clk s)
              = Inr (BatchResults (map (\<lambda>x. (json_field x (js ''path''), ''success'')) xs) (length xs))
          \<and> the_db (snd (batchWrite (ValidToken uid) (uuid_str u) (Some (JArr xs)) clk s)) u
              = writes_in_order clk 0 xs (the_db s u))
       \<and> (\<not> list_all writable xs \<longrightarrow>
            fst (batchWrite (ValidToken uid) (uuid_str u) (Some (JArr xs)) clk s) = Inl InternalError
          \<and> the_db (snd (batchWrite (ValidToken uid) (uuid_str u) (Some (JArr xs)) clk s)) u
              = writes_in_order clk 0 (takeWhile writable xs) (the_db s u))"
proof (cases "list_all writable xs")
  case True
  then have tw: "takeWhile writable xs = xs" by (simp add: list_all_iff)
  from True assms show ?thesis
    by (simp add: batchWrite_def authenticateToken_def bucket_access_uuid batch_items_prefix
        the_db_update tw)
next
  case False
  with assms show ?thesis
    by (simp add: batchWrite_def authenticateToken_def bucket_access_uuid batch_items_prefix
        the_db_def update_conv')
qed

lemma batchWrite_in_order_example:
  "map_of (buckets store1) b1 = Some bucket1 \<and> owner bucket1 = alice
   \<and> fst (batchWrite (ValidToken alice) (uuid_str b1) (Some batch_ok) (ticking 300) store1)
       = Inr (BatchResults [(Some (JStr (js ''a'')), ''success''), (Some (JStr (js ''b'')), ''success'')] 2)
   \<and> the_db (snd (batchWrite (ValidToken alice) (uuid_str b1) (Some batch_ok) (ticking 300) store1)) b1
       = \<lparr>own = [(js ''u/1'', new_item doc1 200 201), (js ''a'', new_item (JNum 1) 300 301),
                 (js ''b'', new_item (JNum 2) 302 303)], proto = None\<rparr>
   \<and> fst (batchWrite (ValidToken alice) (uuid_str b1) (Some batch_broken) (ticking 300) store1)
       = Inl InternalError
   \<and> the_db (snd (batchWrite (ValidToken alice) (uuid_str b1) (Some batch_broken) (ticking 300) store1)) b1
       = \<lparr>own = [(js ''u/1'', new_item doc1 200 201), (js ''a'', new_item (JNum 1) 300 301)],
          proto = None\<rparr>"
proof -
  have a: "map_of (buckets store1) b1 = Some bucket1"
    by (simp add: store1_def)
  have b: "owner bucket1 = alice"
    by (simp add: bucket1_def)
  have ok: "list_all writable [JObj [(js ''path'', JStr (js ''a'')), (js ''data'', JNum 1)],
      JObj [(js ''path'', JStr (js ''b'')), (js ''data'', JNum 2)]]"
    by (simp add: writable_def to_property_key_def)
  have broken: "\<not> list_all writable [JObj [(js ''path'', JStr (js ''a'')), (js ''data'', JNum 1)],
      JObj [(js ''path'', JStr (js ''b''))],
      JObj [(js ''path'', JStr (js ''c'')), (js ''data'', JNum 3)]]"
    by (simp add: writable_def to_property_key_def)
  have db: "the_db store1 b1 = \<lparr>own = [(js ''u/1'', new_item doc1 200 201)], proto = None\<rparr>"
    by (simp add: the_db_def store1_def)
  from batchWrite_in_order [OF a b, of _ "ticking 300"] ok broken a b show ?thesis
    by (simp add: batch_ok_def batch_broken_def db writable_def to_property_key_def item_key_def
        item_data_def db_set_def ticking_def)
qed

text \<open>
  Claim C6.  The handler departs from the claim when an item cannot be written.  A batch
  of three items whose second has no \<^verbatim>\<open>data\<close> is answered with 500 and no status entry at
  all, where the claim asks for one entry per item, the second marked failed; the first
  item stays stored and the third is not written.
\<close>

theorem batch_failure_has_no_statuses:
  "fst (run [new_bucket1,
             BatchWrite (ValidToken alice) (uuid_str b1) (Some batch_broken) (ticking 300),
             Get (ValidToken alice) (uuid_str b1) (js ''a''),
             Get (ValidToken alice) (uuid_str b1) (js ''c'')] init)
   = [Inr (BucketCreated (uuid_str b1) (JStr (js ''b1''))),
      Inl InternalError,
      Inr (Found (js ''a'') (Json (JNum 1)) (Date 300) (Date 301) (Number 1)),
      Inl (NotFound ''Data not found'')]"
  by (simp add: handler_defs example_defs string_defs)

subsection \<open>Registering and logging in\<close>

lemma register_present:
  assumes "truthy e" and "truthy p" and "to_property_key e = Some k" and "map_of (users s) k = Some u"
  shows "register e p n uid clk s = (Inl (Conflict ''User already exists''), s)"
proof -
  from assms(1,2) obtain e' p' where "e = Some e'" "p = Some p'"
    by (cases e; cases p) auto
  with assms show ?thesis by (simp add: register_def obj_get_def)
qed

lemma register_success:
  assumes "register e p n uid clk s = (Inr r, s1)"
  shows "\<exists>k u. to_property_key e = Some k \<and> truthy e \<and> map_of (users s1) k = Some u"
  using assms
  by (auto simp: register_def obj_get_def update_conv' split: if_splits option.splits lookup.splits)

text \<open>
  Claim C7, as stated, fails: registering a login that is present without a password, and
  logging in with an empty password, are answered with 400, not with 409 or 401.
\<close>

theorem missing_password_is_bad_request:
  "fst (run [Register (Some (JStr (js ''dup@x.com''))) (Some (JStr (js ''pw''))) None (Uuid 7 0 0 0 0) (ticking 50),
             Register (Some (JStr (js ''dup@x.com''))) None None (Uuid 8 0 0 0 0) (ticking 60),
             Login (Some (JStr (js ''dup@x.com''))) (Some (JStr []))] init)
   = [Inr (Registered (uuid_str (Uuid 7 0 0 0 0)) (JStr (js ''dup@x.com'')) (ValidToken (uuid_str (Uuid 7 0 0 0 0)))),
      Inl (BadRequest ''Email and password required''),
      Inl (BadRequest ''Email and password required'')]"
  by (simp add: handler_defs example_defs string_defs)

text \<open>
  Claim C7, amended.  For an email and a password that are both non-empty strings:
  registering an email that is present is answered with 409 and changes nothing, so a
  second registration of the same email after a successful one fails and adds no second
  user; logging in is answered with 401 when the email is absent or the password differs
  from the stored one.  A request that lacks the email or the password (the field is
  missing or falsy) is answered with 400 by both routes and changes nothing.
\<close>

theorem register_conflict_login_unauthorized:
  assumes "k \<noteq> []" and "pw \<noteq> []"
  shows "(\<forall>u. map_of (users s) k = Some u \<longrightarrow>
            register (Some (JStr k)) (Some (JStr pw)) n uid clk s
              = (Inl (Conflict ''User already exists''), s))
       \<and> (\<forall>r s1. register (Some (JStr k)) p0 n0 uid0 clk0 s = (Inr r, s1) \<longrightarrow>
            register (Some (JStr k)) (Some (JStr pw)) n uid clk s1
              = (Inl (Conflict ''User already exists''), s1))
       \<and> (map_of (users s) k = None \<longrightarrow>
            login (Some (JStr k)) (Some (JStr pw)) s = (Inl (Unauthorized ''Invalid credentials''), s))
       \<and> (\<forall>u. map_of (users s) k = Some u \<and> password u \<noteq> JStr pw \<longrightarrow>
            login (Some (JStr k)) (Some (JStr pw)) s = (Inl (Unauthorized ''Invalid credentials''), s))
       \<and> (\<not> truthy e0 \<or> \<not> truthy p1 \<longrightarrow>
            register e0 p1 n uid clk s = (Inl (BadRequest ''Email and password required''), s)
          \<and> login e0 p1 s = (Inl (BadRequest ''Email and password required''), s))"
proof -
  from assms have e: "truthy (Some (JStr k))" and p: "truthy (Some (JStr pw))"
    by simp_all
  have key: "to_property_key (Some (JStr k)) = Some k"
    by (simp add: to_property_key_def)
  show ?thesis
  proof (intro conjI allI impI)
    fix u assume "map_of (users s) k = Some u"
    with e p key show "register (Some (JStr k)) (Some (JStr pw)) n uid clk s
        = (Inl (Conflict ''User already exists''), s)"
      by (rule register_present)
  next
    fix r s1 assume "register (Some (JStr k)) p0 n0 uid0 clk0 s = (Inr r, s1)"
    from register_success [OF this] key obtain u where "map_of (users s1) k = Some u"
      by auto
    with e p key show "register (Some (JStr k)) (Some (JStr pw)) n uid clk s1
        = (Inl (Conflict ''User already exists''), s1)"
      by (rule register_present)
  next
    assume "map_of (users s) k = None"
    with assms show "login (Some (JStr k)) (Some (JStr pw)) s
        = (Inl (Unauthorized ''Invalid credentials''), s)"
      by (simp add: login_def obj_get_def to_property_key_def)
  next
    fix u assume "map_of (users s) k = Some u \<and> password u \<noteq> JStr pw"
    with assms show "login (Some (JStr k)) (Some (JStr pw)) s
        = (Inl (Unauthorized ''Invalid credentials''), s)"
      by (cases "password u") (simp_all add: login_def obj_get_def to_property_key_def)
  next
    assume "\<not> truthy e0 \<or> \<not> truthy p1"
    then show "register e0 p1 n uid clk s = (Inl (BadRequest ''Email and password required''), s)"
      by (auto simp: register_def)
  next
    assume "\<not> truthy e0 \<or> \<not> truthy p1"
    then show "login e0 p1 s = (Inl (BadRequest ''Email and password required''), s)"
      by (auto simp: login_def)
  qed
qed

theorem register_conflict_login_unauthorized_witness:
  "js ''dup@x.com'' \<noteq> [] \<and> js ''wrong'' \<noteq> []
   \<and> map_of (users store_users) (js ''dup@x.com'') = Some carol
   \<and> register (Some (JStr (js ''dup@x.com''))) (Some (JStr (js ''wrong''))) None b2 (ticking 60)
         store_users
       = (Inl (Conflict ''User already exists''), store_users)
   \<and> register (Some (JStr (js ''dup@x.com''))) (Some (JStr (js ''pw''))) None (Uuid 7 0 0 0 0)
         (ticking 50) init
       = (Inr (Registered (uuid_str (Uuid 7 0 0 0 0)) (JStr (js ''dup@x.com''))
                (ValidToken (uuid_str (Uuid 7 0 0 0 0)))), store_users)
   \<and> password carol \<noteq> JStr (js ''wrong'')
   \<and> login (Some (JStr (js ''dup@x.com''))) (Some (JStr (js ''wrong''))) store_users
       = (Inl (Unauthorized ''Invalid credentials''), store_users)
   \<and> map_of (users init) (js ''dup@x.com'') = None
   \<and> login (Some (JStr (js ''dup@x.com''))) (Some (JStr (js ''wrong''))) init
       = (Inl (Unauthorized ''Invalid credentials''), init)
   \<and> \<not> truthy None
   \<and> register (Some (JStr (js ''dup@x.com''))) None None b2 (ticking 60) store_users
       = (Inl (BadRequest ''Email and password required''), store_users)
   \<and> login (Some (JStr (js ''dup@x.com''))) None store_users
       = (Inl (BadRequest ''Email and password required''), store_users)"
proof -
  have k: "js ''dup@x.com'' \<noteq> []" by simp
  have p: "js ''wrong'' \<noteq> []" by simp
  have u: "map_of (users store_users) (js ''dup@x.com'') = Some carol"
    by (simp add: store_users_def)
  have w: "password carol \<noteq> JStr (js ''wrong'')"
    by (simp add: carol_def)
  have n: "map_of (users init) (js ''dup@x.com'') = None"
    by (simp add: init_def)
  have f: "\<not> truthy None" by simp
  have r: "register (Some (JStr (js ''dup@x.com''))) (Some (JStr (js ''pw''))) None (Uuid 7 0 0 0 0)
         (ticking 50) init
       = (Inr (Registered (uuid_str (Uuid 7 0 0 0 0)) (JStr (js ''dup@x.com''))
                (ValidToken (uuid_str (Uuid 7 0 0 0 0)))), store_users)"
    by (simp add: register_def obj_get_def to_property_key_def or_default_def init_def
        store_users_def carol_def ticking_def object_prototype_keys_def)
  note t = register_conflict_login_unauthorized [OF k p, where n = None and uid = b2 and clk = "ticking 60"
      and ?p0.0 = "Some (JStr (js ''pw''))" and ?n0.0 = None and ?uid0.0 = "Uuid 7 0 0 0 0"
      and ?clk0.0 = "ticking 50" and ?e0.0 = "Some (JStr (js ''dup@x.com''))" and ?p1.0 = None]
  from t [where s = store_users] u
  have a: "register (Some (JStr (js ''dup@x.com''))) (Some (JStr (js ''wrong''))) None b2 (ticking 60)
         store_users = (Inl (Conflict ''User already exists''), store_users)"
    by simp
  from t [where s = init] r
  have a': "register (Some (JStr (js ''dup@x.com''))) (Some (JStr (js ''wrong''))) None b2 (ticking 60)
         store_users = (Inl (Conflict ''User already exists''), store_users)"
    by simp
  from t [where s = store_users] u w
  have b: "login (Some (JStr (js ''dup@x.com''))) (Some (JStr (js ''wrong''))) store_users
       = (Inl (Unauthorized ''Invalid credentials''), store_users)"
    by simp
  from t [where s = init] n
  have c: "login (Some (JStr (js ''dup@x.com''))) (Some (JStr (js ''wrong''))) init
       = (Inl (Unauthorized ''Invalid credentials''), init)"
    by simp
  from t [where s = store_users] f
  have d: "register (Some (JStr (js ''dup@x.com''))) None None b2 (ticking 60) store_users
       = (Inl (BadRequest ''Email and password required''), store_users)"
    and d': "login (Some (JStr (js ''dup@x.com''))) None store_users
       = (Inl (BadRequest ''Email and password required''), store_users)"
    by simp_all
  from k p u a r w b n c f d d' show ?thesis
    by (intro conjI)
qed

subsection \<open>Vector search\<close>

lemma length_slice0_le: "0 \<le> e \<Longrightarrow> int (length (slice0 xs e)) \<le> e"
  by (simp add: slice0_def Let_def)

lemma set_slice0: "set (slice0 xs e) \<subseteq> set xs"
  by (auto simp: slice0_def Let_def dest: in_set_takeD)

text \<open>
  Claim C9, as stated, fails: a request with \<^verbatim>\<open>topK\<close> 0 on a bucket with one document
  gets that document back, one result where at most 0 were asked for, because
  \<^verbatim>\<open>topK || 10\<close> replaces 0 by 10.
\<close>

theorem topK_zero_returns_items:
  "fst (step (VectorQuery (ValidToken alice) (uuid_str b1) None (Some 0) no_score) store1)
   = Inr (SearchResults None [\<lparr>hit_path = js ''u/1'', hit_data = doc1, score = 0\<rparr>])"
  by (simp add: handler_defs example_defs string_defs store1_def bucket1_def)

text \<open>
  Claim C9, amended.  On a bucket of the caller's, for a \<^verbatim>\<open>topK\<close> that is absent, 0 or a
  positive integer, the search returns results taken from the bucket's stored documents
  (each with the document's path and data, and a score), at most \<^verbatim>\<open>topK\<close> of them when
  \<^verbatim>\<open>topK\<close> is positive and at most 10 when it is absent or 0.
\<close>

theorem vectorQuery_bounded:
  assumes "map_of (buckets s) u = Some b" and "owner b = uid"
    and "topK' = None \<or> (\<exists>k. topK' = Some k \<and> 0 \<le> k)"
  shows "\<exists>hits. vectorQuery (ValidToken uid) (uuid_str u) q topK' rnd s = (Inr (SearchResults q hits), s)
           \<and> int (length hits) \<le> (case topK' of None \<Rightarrow> 10 | Some k \<Rightarrow> if k = 0 then 10 else k)
           \<and> (\<forall>h \<in> set hits. \<exists>it. (hit_path h, it) \<in> set (own (the_db s u)) \<and> hit_data h = data it)"
proof -
  let ?limit = "case topK' of None \<Rightarrow> 10 | Some k \<Rightarrow> if k = 0 then 10 else k"
  let ?found = "case map_of (databases s) u of None \<Rightarrow> [] | Some d \<Rightarrow> slice0 (db_entries d) ?limit"
  let ?hits = "map (\<lambda>ip. \<lparr>hit_path = fst (snd ip), hit_data = data (snd (snd ip)), score = rnd (fst ip)\<rparr>)
                 (enumerate 0 ?found)"
  from assms(3) have pos: "0 \<le> ?limit" by (auto split: option.splits)
  have a: "vectorQuery (ValidToken uid) (uuid_str u) q topK' rnd s = (Inr (SearchResults q ?hits), s)"
    using assms(1,2)
    by (simp add: vectorQuery_def authenticateToken_def bucket_access_uuid Let_def)
  have "int (length ?found) \<le> ?limit"
    using pos by (cases "map_of (databases s) u") (simp_all add: length_slice0_le)
  then have b: "int (length ?hits) \<le> ?limit" by simp
  have sub: "set ?found \<subseteq> set (own (the_db s u))"
  proof (cases "map_of (databases s) u")
    case None
    then show ?thesis by simp
  next
    case (Some d)
    have "set (slice0 (db_entries d) ?limit) \<subseteq> set (db_entries d)" by (rule set_slice0)
    also have "\<dots> = set (own d)" by (simp add: db_entries_def set_js_order)
    finally show ?thesis using Some by (simp add: the_db_def)
  qed
  have c: "\<forall>h \<in> set ?hits. \<exists>it. (hit_path h, it) \<in> set (own (the_db s u)) \<and> hit_data h = data it"
  proof
    fix h assume "h \<in> set ?hits"
    then obtain ip where ip: "ip \<in> set (enumerate 0 ?found)"
      and h: "h = \<lparr>hit_path = fst (snd ip), hit_data = data (snd (snd ip)), score = rnd (fst ip)\<rparr>"
      by auto
    from ip have "snd ip \<in> snd ` set (enumerate 0 ?found)" by (rule imageI)
    then have "snd ip \<in> set (map snd (enumerate 0 ?found))" by (simp only: set_map)
    then have "snd ip \<in> set ?found" by (simp only: map_snd_enumerate)
    with sub have "(fst (snd ip), snd (snd ip)) \<in> set (own (the_db s u))" by auto
    then have "(hit_path h, snd (snd ip)) \<in> set (own (the_db s u))
        \<and> hit_data h = data (snd (snd ip))"
      by (simp add: h)
    then show "\<exists>it. (hit_path h, it) \<in> set (own (the_db s u)) \<and> hit_data h = data it"
      by (rule exI)
  qed
  from a b c show ?thesis by blast
qed

theorem vectorQuery_bounded_witness:
  "map_of (buckets store3) b1 = Some (bucket1\<lparr>itemCount := 3\<rparr>)
   \<and> owner (bucket1\<lparr>itemCount := 3\<rparr>) = alice
   \<and> (\<exists>hits. vectorQuery (ValidToken alice) (uuid_str b1) None (Some 2) no_score store3
                 = (Inr (SearchResults None hits), store3)
             \<and> int (length hits) \<le> 2
             \<and> (\<forall>h \<in> set hits. \<exists>it. (hit_path h, it) \<in> set (own (the_db store3 b1))
                                   \<and> hit_data h = data it))"
proof -
  have a: "map_of (buckets store3) b1 = Some (bucket1\<lparr>itemCount := 3\<rparr>)"
    by (simp add: store3_def)
  have b: "owner (bucket1\<lparr>itemCount := 3\<rparr>) = alice"
    by (simp add: bucket1_def)
  have c: "Some (2::int) = None \<or> (\<exists>k. Some (2::int) = Some k \<and> 0 \<le> k)"
    by simp
  from vectorQuery_bounded [OF a b c, of None no_score] a b show ?thesis
    by simp
qed

subsection \<open>Paths that name no inherited property\<close>

text \<open>
  The documents objects of a store that requests have built never have an own property
  \<^verbatim>\<open>__proto__\<close>.
\<close>

lemma own_db_set: "map_of (own (db_set d k it)) (js ''__proto__'') = map_of (own d) (js ''__proto__'')"
  by (simp add: db_set_def update_conv')

lemma own_db_delete:
  "map_of (own d) (js ''__proto__'') = None \<Longrightarrow> map_of (own (db_delete d k)) (js ''__proto__'') = None"
  by (simp add: db_delete_def delete_conv')

lemma own_batch_items:
  "map_of (own (snd (batch_items clk i xs d))) (js ''__proto__'') = map_of (own d) (js ''__proto__'')"
  by (simp add: batch_items_prefix)
     (induction xs arbitrary: i d; simp add: own_db_set)

lemma the_db_proto_free:
  "proto_free s \<Longrightarrow> map_of (own (the_db s u)) (js ''__proto__'') = None"
  by (auto simp: proto_free_def the_db_def empty_db_def split: option.splits)

lemma proto_free_store:
  assumes "proto_free s" and "map_of (own d) (js ''__proto__'') = None"
  shows "proto_free (s\<lparr>buckets := bs, databases := AList.update u d (databases s)\<rparr>)"
  using assms by (auto simp: proto_free_def update_conv')

lemma proto_free_store':
  assumes "proto_free s" and "map_of (own d) (js ''__proto__'') = None"
  shows "proto_free (s\<lparr>databases := AList.update u d (databases s)\<rparr>)"
  using assms by (auto simp: proto_free_def update_conv')

lemma proto_free_users: "proto_free (s\<lparr>users := us\<rparr>) = proto_free s"
  by (simp add: proto_free_def)

lemma proto_free_put: "proto_free s \<Longrightarrow> put c k p x clk s = (a, s') \<Longrightarrow> proto_free s'"
  by (auto simp: put_def authenticateToken_def Let_def proto_free_store own_db_set the_db_proto_free
      split: if_splits credential.splits sum.splits)

lemma proto_freeD:
  "proto_free s \<Longrightarrow> map_of (databases s) u = Some d \<Longrightarrow> map_of (own d) (js ''__proto__'') = None"
  by (simp add: proto_free_def)

lemma proto_free_delete:
  assumes "proto_free s" and "delete c k p s = (a, s')"
  shows "proto_free s'"
proof (cases c)
  case (ValidToken uid)
  show ?thesis
  proof (cases "bucket_access s k uid")
    case (Inl e)
    with assms ValidToken show ?thesis by (simp add: delete_def authenticateToken_def)
  next
    case (Inr ub)
    obtain u b where ub: "ub = (u, b)" by (cases ub)
    show ?thesis
    proof (cases "map_of (databases s) u")
      case None
      with assms ValidToken Inr ub show ?thesis by (simp add: delete_def authenticateToken_def)
    next
      case (Some d)
      show ?thesis
      proof (cases "slot_truthy (db_get d p)")
        case False
        with assms ValidToken Inr ub Some show ?thesis
          by (simp add: delete_def authenticateToken_def)
      next
        case True
        from assms(1) Some have "map_of (own d) (js ''__proto__'') = None" by (rule proto_freeD)
        then have "map_of (own (db_delete d p)) (js ''__proto__'') = None" by (rule own_db_delete)
        with assms(1)
        have "proto_free (s\<lparr>buckets := AList.update u (b\<lparr>itemCount := length (db_keys (db_delete d p))\<rparr>) (buckets s),
                               databases := AList.update u (db_delete d p) (databases s)\<rparr>)"
          by (rule proto_free_store)
        with assms(2) ValidToken Inr ub Some True show ?thesis
          by (simp add: delete_def authenticateToken_def Let_def)
      qed
    qed
  qed
qed (insert assms, simp_all add: delete_def authenticateToken_def)

lemma proto_free_batchWrite:
  assumes "proto_free s" and "batchWrite c k xs clk s = (a, s')"
  shows "proto_free s'"
proof (cases c)
  case (ValidToken uid)
  show ?thesis
  proof (cases "bucket_access s k uid")
    case (Inl e)
    with assms ValidToken show ?thesis by (simp add: batchWrite_def authenticateToken_def)
  next
    case (Inr ub)
    obtain u b where ub: "ub = (u, b)" by (cases ub)
    show ?thesis
    proof (cases "\<exists>ys. xs = Some (JArr ys)")
      case False
      with assms ValidToken Inr ub show ?thesis
        by (auto simp: batchWrite_def authenticateToken_def split: option.splits json.splits)
    next
      case True
      then obtain ys where ys: "xs = Some (JArr ys)" by blast
      obtain r d where rd: "batch_items clk 0 ys (the_db s u) = (r, d)"
        by (cases "batch_items clk 0 ys (the_db s u)")
      from own_batch_items [of clk 0 ys "the_db s u"] rd
      have d: "map_of (own d) (js ''__proto__'') = None"
        by (simp add: the_db_proto_free assms(1))
      from assms(1) d have 1: "proto_free (s\<lparr>databases := AList.update u d (databases s)\<rparr>)"
        by (rule proto_free_store')
      from assms(1) d
      have 2: "proto_free (s\<lparr>buckets := AList.update u (b\<lparr>itemCount := length (db_keys d)\<rparr>) (buckets s),
                               databases := AList.update u d (databases s)\<rparr>)"
        by (rule proto_free_store)
      from assms(2) ValidToken Inr ub ys rd 1 2 show ?thesis
        by (cases r) (simp_all add: batchWrite_def authenticateToken_def)
    qed
  qed
qed (insert assms, simp_all add: batchWrite_def authenticateToken_def)

lemma proto_free_createBucket:
  assumes "proto_free s" and "createBucket c n d r bid clk s = (a, s')"
  shows "proto_free s'"
proof -
  from assms(2) consider "s' = s"
    | bs where "s' = s\<lparr>buckets := bs, databases := AList.update bid empty_db (databases s)\<rparr>"
    by (auto simp: createBucket_def authenticateToken_def
        split: credential.splits option.splits if_splits)
  then show ?thesis
  proof cases
    case 1
    with assms(1) show ?thesis by simp
  next
    case 2
    have "map_of (own empty_db) (js ''__proto__'') = None" by (simp add: empty_db_def)
    with assms(1) show ?thesis unfolding 2 by (rule proto_free_store)
  qed
qed

lemma proto_free_register: "proto_free s \<Longrightarrow> register e p n uid clk s = (a, s') \<Longrightarrow> proto_free s'"
  by (auto simp: register_def proto_free_users split: if_splits option.splits lookup.splits)

lemma proto_free_step:
  assumes "proto_free s" and "step r s = (a, s')"
  shows "proto_free s'"
proof (cases r)
  case (Register x1 x2 x3 x4 x5)
  with assms show ?thesis by (auto dest: proto_free_register)
next
  case (Login x1 x2)
  with assms show ?thesis by (auto dest: login_store)
next
  case (CreateBucket x1 x2 x3 x4 x5 x6)
  with assms show ?thesis by (auto dest: proto_free_createBucket)
next
  case (ListBuckets x1)
  with assms show ?thesis by (auto dest: listBuckets_store)
next
  case (Put x1 x2 x3 x4 x5)
  with assms show ?thesis by (auto dest: proto_free_put)
next
  case (Get x1 x2 x3)
  with assms show ?thesis by (auto dest: get_store)
next
  case (Delete x1 x2 x3)
  with assms show ?thesis by (auto dest: proto_free_delete)
next
  case (ListItems x1 x2)
  with assms show ?thesis by (auto dest: listItems_store)
next
  case (VectorQuery x1 x2 x3 x4 x5)
  with assms show ?thesis by (auto dest: vectorQuery_store)
next
  case (BatchWrite x1 x2 x3 x4)
  with assms show ?thesis by (auto dest: proto_free_batchWrite)
qed

lemma proto_free_run: "proto_free s \<Longrightarrow> run rs s = (as, s') \<Longrightarrow> proto_free s'"
proof (induction rs arbitrary: s as)
  case Nil
  then show ?case by simp
next
  case (Cons r rs)
  obtain a s1 where r: "step r s = (a, s1)" by (cases "step r s")
  obtain bs s2 where rs: "run rs s1 = (bs, s2)" by (cases "run rs s1")
  from Cons.prems(2) r rs have "s' = s2" by simp
  with rs have "run rs s1 = (bs, s')" by simp
  moreover from Cons.prems(1) r have "proto_free s1" by (rule proto_free_step)
  ultimately show ?case by (rule Cons.IH [rotated])
qed

lemma proto_free_init: "proto_free init"
  by (simp add: proto_free_def init_def)

text \<open>
  In every store that requests have built, whatever the path and whichever object or
  array the payload, a read that follows a write returns the payload written, the two
  clock readings of that write and the length of the serialised payload.
\<close>

lemma db_get_db_set:
  assumes "map_of (own d) (js ''__proto__'') = None"
  shows "db_get (db_set d p it) p = Item it"
  using assms by (simp add: db_get_def db_set_def update_conv')

lemma put_then_get:
  assumes "run rs init = (as, s)" and "map_of (buckets s) u = Some b" and "owner b = uid"
    and "strict_body x"
  shows "get (ValidToken uid) (uuid_str u) p (snd (put (ValidToken uid) (uuid_str u) p x clk s))
         = (Inr (Found p (Json x) (Date (clk 0)) (Date (clk 1)) (Number (length (JSON_stringify x)))),
            snd (put (ValidToken uid) (uuid_str u) p x clk s))"
proof -
  have pf: "proto_free s" using proto_free_init assms(1) by (rule proto_free_run)
  let ?it = "new_item x (clk 0) (clk 1)"
  have "db_get (db_set (the_db s u) p ?it) p = Item ?it"
    by (rule db_get_db_set) (simp add: the_db_proto_free pf)
  with assms(2,3,4) show ?thesis
    by (simp add: put_def get_def authenticateToken_def bucket_access_uuid Let_def update_conv'
        new_item_def)
qed

text \<open>
  On a documents object whose prototype has not been replaced, and for a path that is
  not the name of an inherited property, a delete is answered with 404 exactly when the
  path holds no document, and a delete that follows a delete is answered with 404.
\<close>

lemma delete_ordinary_path:
  assumes "map_of (buckets s) u = Some b" and "owner b = uid"
    and "map_of (databases s) u = Some d" and "proto d = None"
    and "p \<notin> set object_prototype_keys"
  shows "(fst (delete (ValidToken uid) (uuid_str u) p s) = Inl (NotFound ''Data not found''))
           = (map_of (own d) p = None)"
    and "fst (delete (ValidToken uid) (uuid_str u) p (snd (delete (ValidToken uid) (uuid_str u) p s)))
           = Inl (NotFound ''Data not found'')"
proof -
  have g: "slot_truthy (db_get d p) = (map_of (own d) p \<noteq> None)"
    using assms(4,5) by (auto simp: db_get_def split: option.splits)
  with assms(1,2,3) show "(fst (delete (ValidToken uid) (uuid_str u) p s) = Inl (NotFound ''Data not found''))
           = (map_of (own d) p = None)"
    by (auto simp: delete_def authenticateToken_def bucket_access_uuid Let_def)
  have g': "\<not> slot_truthy (db_get (db_delete d p) p)"
    using assms(4,5) by (simp add: db_get_def db_delete_def delete_conv')
  show "fst (delete (ValidToken uid) (uuid_str u) p (snd (delete (ValidToken uid) (uuid_str u) p s)))
           = Inl (NotFound ''Data not found'')"
  proof (cases "map_of (own d) p")
    case None
    with g have "\<not> slot_truthy (db_get d p)" by simp
    with assms(1,2,3) show ?thesis
      by (simp add: delete_def authenticateToken_def bucket_access_uuid Let_def)
  next
    case (Some it)
    with g have "slot_truthy (db_get d p)" by simp
    with assms(1,2,3) g' show ?thesis
      by (simp add: delete_def authenticateToken_def bucket_access_uuid Let_def update_conv')
  qed
qed

text \<open>
  A batch write that is answered with 500 has stored its first item without recomputing
  the count: the bucket's record says 0 while the listing has one entry.
\<close>

lemma failed_batch_leaves_count:
  "map (\<lambda>p. itemCount (snd p))
     (buckets (snd (run [new_bucket1,
        BatchWrite (ValidToken alice) (uuid_str b1) (Some batch_broken) (ticking 300)] init)))
     = [0]
   \<and> length (item_listing (snd (run [new_bucket1,
        BatchWrite (ValidToken alice) (uuid_str b1) (Some batch_broken) (ticking 300)] init)) b1)
     = 1"
  by (simp add: handler_defs example_defs string_defs length_js_order)

end
